theory Spec2Isabelle
  imports Complex_Main "HOL-Library.Multiset" "HOL-Library.AList"
begin

section \<open>Cells: float64 values as pandas sees them\<close>

text \<open>
  A cell of a pandas Series or DataFrame column of dtype float64. Finite values are taken
  as exact reals (rounding, overflow and the sign of zero are not modelled: \<open>Fin 0\<close>
  stands for +0.0); the three special values of IEEE 754 are kept apart, because pandas
  treats them differently: \<open>NaN\<close> is the missing-value marker (\<open>pd.isna\<close>), while
  the infinities are ordinary values for \<open>dropna\<close>, \<open>ffill\<close> and \<open>bfill\<close>.
\<close>

datatype cell = Fin real | PInf | MInf | NaN

fun isna :: "cell \<Rightarrow> bool" where
  "isna NaN = True"
| "isna _ = False"

fun isfinite :: "cell \<Rightarrow> bool" where
  "isfinite (Fin r) = True"
| "isfinite _ = False"

text \<open>numpy arithmetic on float64: division by zero and invalid operations yield an
  infinity or NaN (at most a warning), never an exception.\<close>

fun fneg :: "cell \<Rightarrow> cell" where
  "fneg (Fin a) = Fin (- a)"
| "fneg PInf = MInf"
| "fneg MInf = PInf"
| "fneg NaN = NaN"

fun fadd :: "cell \<Rightarrow> cell \<Rightarrow> cell" where
  "fadd (Fin a) (Fin b) = Fin (a + b)"
| "fadd NaN _ = NaN"
| "fadd _ NaN = NaN"
| "fadd PInf MInf = NaN"
| "fadd MInf PInf = NaN"
| "fadd PInf _ = PInf"
| "fadd MInf _ = MInf"
| "fadd _ PInf = PInf"
| "fadd _ MInf = MInf"

definition fsub :: "cell \<Rightarrow> cell \<Rightarrow> cell" where
  "fsub a b = fadd a (fneg b)"

fun fmul :: "cell \<Rightarrow> cell \<Rightarrow> cell" where
  "fmul (Fin a) (Fin b) = Fin (a * b)"
| "fmul NaN _ = NaN"
| "fmul _ NaN = NaN"
| "fmul PInf (Fin b) = (if b = 0 then NaN else if 0 < b then PInf else MInf)"
| "fmul MInf (Fin b) = (if b = 0 then NaN else if 0 < b then MInf else PInf)"
| "fmul (Fin a) PInf = (if a = 0 then NaN else if 0 < a then PInf else MInf)"
| "fmul (Fin a) MInf = (if a = 0 then NaN else if 0 < a then MInf else PInf)"
| "fmul PInf PInf = PInf"
| "fmul MInf MInf = PInf"
| "fmul PInf MInf = MInf"
| "fmul MInf PInf = MInf"

fun fdiv :: "cell \<Rightarrow> cell \<Rightarrow> cell" where
  "fdiv (Fin a) (Fin b) =
     (if b \<noteq> 0 then Fin (a / b)
      else if a = 0 then NaN else if 0 < a then PInf else MInf)"
| "fdiv NaN _ = NaN"
| "fdiv _ NaN = NaN"
| "fdiv (Fin a) PInf = Fin 0"
| "fdiv (Fin a) MInf = Fin 0"
| "fdiv PInf (Fin b) = (if 0 \<le> b then PInf else MInf)"
| "fdiv MInf (Fin b) = (if 0 \<le> b then MInf else PInf)"
| "fdiv PInf PInf = NaN"
| "fdiv PInf MInf = NaN"
| "fdiv MInf PInf = NaN"
| "fdiv MInf MInf = NaN"

section \<open>Frames\<close>

text \<open>
  A DataFrame: the row labels (dates, as day numbers) and the columns in order, each a
  name with its cells. A well-formed frame has one cell per row in every column.
\<close>

type_synonym date = int

record frame =
  idx :: "date list"
  cols :: "(string \<times> cell list) list"

definition wf_frame :: "frame \<Rightarrow> bool" where
  "wf_frame f = list_all (\<lambda>(n, c). length c = length (idx f)) (cols f)"

text \<open>\<open>DataFrame.empty\<close>: some axis has length 0.\<close>

definition empty :: "frame \<Rightarrow> bool" where
  "empty f = (idx f = [] \<or> cols f = [])"

text \<open>Boolean-mask row selection, \<open>df[mask]\<close>.\<close>

definition select :: "bool list \<Rightarrow> 'a list \<Rightarrow> 'a list" where
  "select m xs = map snd (filter fst (zip m xs))"

definition select_rows :: "bool list \<Rightarrow> frame \<Rightarrow> frame" where
  "select_rows m f = \<lparr>idx = select m (idx f), cols = map (\<lambda>(n, c). (n, select m c)) (cols f)\<rparr>"

text \<open>Positional row selection, \<open>df.iloc[perm]\<close>.\<close>

definition take_rows :: "nat list \<Rightarrow> frame \<Rightarrow> frame" where
  "take_rows p f = \<lparr>idx = map (\<lambda>i. idx f ! i) p, cols = map (\<lambda>(n, c). (n, map (\<lambda>i. c ! i) p)) (cols f)\<rparr>"

text \<open>
  \<open>df.reindex(new)\<close> on a frame with unique labels: the cell of a label the frame has,
  NaN for a label it lacks.
\<close>

definition reindex_col :: "date list \<Rightarrow> date list \<Rightarrow> cell list \<Rightarrow> cell list" where
  "reindex_col new old c =
     map (\<lambda>d. case map_of (zip old c) d of None \<Rightarrow> NaN | Some v \<Rightarrow> v) new"

definition reindex :: "date list \<Rightarrow> frame \<Rightarrow> frame" where
  "reindex new f = \<lparr>idx = new, cols = map (\<lambda>(n, c). (n, reindex_col new (idx f) c)) (cols f)\<rparr>"

datatype error =
    RuntimeError string
  | ValueError string
  | KeyError string
  | InvalidIndexError

text \<open>
  \<open>Index.union\<close> of two date indexes (\<open>sort=None\<close>): the index itself when the
  other one is empty or equal to it; otherwise the labels of both in ascending order, a label
  as often as in the index that has it more often.
\<close>

definition index_union :: "date list \<Rightarrow> date list \<Rightarrow> date list" where
  "index_union self other =
     (if other = [] \<or> self = other then self
      else if self = [] then other
      else sort (self @ fold remove1 self other))"

definition union_indexes :: "date list list \<Rightarrow> date list" where
  "union_indexes ds = foldl index_union (hd ds) (tl ds)"

text \<open>
  \<open>pd.concat(frames, axis=1)\<close> (outer join): the new index is the union of the indexes,
  and every frame whose index is not the new one is reindexed to it, which pandas refuses
  (InvalidIndexError) when that frame has a duplicated label.
\<close>

definition concat_axis1 :: "frame list \<Rightarrow> error + frame" where
  "concat_axis1 fs =
     (case fs of
        [] \<Rightarrow> Inl (ValueError ''No objects to concatenate'')
      | f # rest \<Rightarrow>
          let new = union_indexes (map idx fs) in
          if list_ex (\<lambda>g. idx g \<noteq> new \<and> \<not> distinct (idx g)) fs then Inl InvalidIndexError
          else Inr \<lparr>idx = new,
                   cols = concat (map (\<lambda>g. if idx g = new then cols g else cols (reindex new g)) fs)\<rparr>)"

text \<open>
  \<open>df.sort_index()\<close>: an index that is already ascending is returned as it is;
  otherwise the rows are taken in the order of numpy's \<open>argsort\<close> of the labels. The
  default sort of numpy is not stable, so the order it gives equal labels is not fixed by the
  labels: \<open>argsort\<close> is taken as given, and \<open>is_argsort\<close> says what is known of it,
  that it lists every row once and in ascending order of the labels. The stable sort is what
  numpy does on short arrays.
\<close>

definition is_argsort :: "(date list \<Rightarrow> nat list) \<Rightarrow> bool" where
  "is_argsort argsort =
     (\<forall>ds. mset (argsort ds) = mset [0..<length ds] \<and> sorted (map (\<lambda>i. ds ! i) (argsort ds)))"

definition stable_argsort :: "date list \<Rightarrow> nat list" where
  "stable_argsort ds = sort_key (\<lambda>i. ds ! i) [0..<length ds]"

definition sort_index :: "(date list \<Rightarrow> nat list) \<Rightarrow> frame \<Rightarrow> frame" where
  "sort_index argsort f = (if sorted (idx f) then f else take_rows (argsort (idx f)) f)"

text \<open>\<open>index.duplicated(keep="first")\<close>: True at a label seen at an earlier row.\<close>

fun duplicated_from :: "date list \<Rightarrow> date list \<Rightarrow> bool list" where
  "duplicated_from seen [] = []"
| "duplicated_from seen (d # ds) = (d \<in> set seen) # duplicated_from (d # seen) ds"

definition duplicated :: "date list \<Rightarrow> bool list" where
  "duplicated ds = duplicated_from [] ds"

definition drop_duplicated :: "frame \<Rightarrow> frame" where
  "drop_duplicated f = select_rows (map Not (duplicated (idx f))) f"

text \<open>\<open>ffill\<close> and \<open>bfill\<close> per column: a missing cell takes the last (next) cell that
  is not missing, and stays missing when there is none.\<close>

fun ffill_from :: "cell \<Rightarrow> cell list \<Rightarrow> cell list" where
  "ffill_from prev [] = []"
| "ffill_from prev (c # cs) =
     (if isna c then prev # ffill_from prev cs else c # ffill_from c cs)"

definition ffill_col :: "cell list \<Rightarrow> cell list" where
  "ffill_col c = ffill_from NaN c"

definition bfill_col :: "cell list \<Rightarrow> cell list" where
  "bfill_col c = rev (ffill_col (rev c))"

definition map_cols :: "(cell list \<Rightarrow> cell list) \<Rightarrow> frame \<Rightarrow> frame" where
  "map_cols g f = \<lparr>idx = idx f, cols = map (\<lambda>(n, c). (n, g c)) (cols f)\<rparr>"

definition ffill :: "frame \<Rightarrow> frame" where
  "ffill f = map_cols ffill_col f"

definition bfill :: "frame \<Rightarrow> frame" where
  "bfill f = map_cols bfill_col f"

text \<open>\<open>dropna(how="any")\<close> drops a row with a missing cell in some column,
  \<open>dropna(how="all")\<close> a row whose cells are all missing.\<close>

definition row_any_na :: "frame \<Rightarrow> nat \<Rightarrow> bool" where
  "row_any_na f i = list_ex (\<lambda>(n, c). isna (c ! i)) (cols f)"

definition row_all_na :: "frame \<Rightarrow> nat \<Rightarrow> bool" where
  "row_all_na f i = list_all (\<lambda>(n, c). isna (c ! i)) (cols f)"

definition dropna_any :: "frame \<Rightarrow> frame" where
  "dropna_any f = select_rows (map (\<lambda>i. \<not> row_any_na f i) [0..<length (idx f)]) f"

definition dropna_all :: "frame \<Rightarrow> frame" where
  "dropna_all f = select_rows (map (\<lambda>i. \<not> row_all_na f i) [0..<length (idx f)]) f"

section \<open>The aligner: \<open>main\<close>, from the fetched frames to the aligned panel\<close>

definition TICKERS :: "(string \<times> string) list" where
  "TICKERS = [(''GSOX'', ''GSOX Index''), (''RGUSTSC'', ''RGUSTSC Index''),
              (''SPX'', ''SPX Index''), (''MXWO'', ''MXWO Index'')]"

definition USE_TOTAL_RETURN :: bool where
  "USE_TOTAL_RETURN = False"

definition base_field :: string where
  "base_field = ''PX_LAST''"

definition tr_field :: string where
  "tr_field = ''TOT_RETURN_INDEX_NET_DVDS''"

text \<open>\<open>name_map\<close>: Bloomberg ticker to short name, in the order of the dict.\<close>

definition name_map :: "(string \<times> string) list" where
  "name_map = map (\<lambda>(short, bbt). (bbt, short)) TICKERS"

text \<open>
  \<open>raw\<close> is the dict of fetched frames: a ticker may be absent, or present with the
  value None (the fallback's \<open>fb.get(t)\<close>), or present with a frame.
\<close>

type_synonym raw = "string \<Rightarrow> frame option option"

definition usable :: "raw \<Rightarrow> string \<Rightarrow> bool" where
  "usable raw bbt = (case raw bbt of Some (Some df) \<Rightarrow> \<not> empty df | _ \<Rightarrow> False)"

definition warning :: "string \<Rightarrow> string" where
  "warning bbt = ''Warning: No data returned for '' @ bbt @ ''. Skipping.''"

text \<open>The body of the loop for a usable frame: pick the value column and rename it.\<close>

definition value_column :: "frame \<Rightarrow> string \<Rightarrow> frame" where
  "value_column df short =
     (let names = map fst (cols df);
          val_col = (if USE_TOTAL_RETURN \<and> tr_field \<in> set names then tr_field else base_field);
          val_col = (if val_col \<notin> set names then hd names else val_col)
      in \<lparr>idx = idx df,
          cols = map (\<lambda>(n, c). (short, c)) (filter (\<lambda>(n, c). n = val_col) (cols df))\<rparr>)"

text \<open>The loop over \<open>name_map\<close>: the lines written to stderr and the list \<open>panel\<close>.\<close>

fun build_panel :: "raw \<Rightarrow> (string \<times> string) list \<Rightarrow> string list \<times> frame list" where
  "build_panel raw [] = ([], [])"
| "build_panel raw ((bbt, short) # rest) =
     (let (warnings, panel) = build_panel raw rest in
      case raw bbt of
        Some (Some df) \<Rightarrow>
          if empty df then (warning bbt # warnings, panel)
          else (warnings, value_column df short # panel)
      | _ \<Rightarrow> (warning bbt # warnings, panel))"

text \<open>Lines 236 to 241 of \<open>main\<close>: concat, sort, drop duplicated dates, fill, drop.\<close>

definition align :: "(date list \<Rightarrow> nat list) \<Rightarrow> frame list \<Rightarrow> error + frame" where
  "align argsort panel =
     (case concat_axis1 panel of
        Inl e \<Rightarrow> Inl e
      | Inr data \<Rightarrow>
          Inr (dropna_any (bfill (ffill (drop_duplicated (sort_index argsort data))))))"

definition main_align :: "(date list \<Rightarrow> nat list) \<Rightarrow> raw \<Rightarrow> string list \<times> (error + frame)" where
  "main_align argsort raw =
     (let (warnings, panel) = build_panel raw name_map in
      (warnings,
       if panel = [] then Inl (RuntimeError ''No data available for any ticker.'')
       else align argsort panel))"

section \<open>Analytics\<close>

definition ROLL_RET_WIN :: nat where
  "ROLL_RET_WIN = 63"

definition ROLL_RISK_WIN :: nat where
  "ROLL_RISK_WIN = 126"

fun first_non_nan :: "cell list \<Rightarrow> cell" where
  "first_non_nan [] = NaN"
| "first_non_nan (v # vs) = (if \<not> isna v then v else first_non_nan vs)"

text \<open>Elementwise arithmetic of two Series on the same index, and of a Series and a scalar.\<close>

definition series_op :: "(cell \<Rightarrow> cell \<Rightarrow> cell) \<Rightarrow> cell list \<Rightarrow> cell list \<Rightarrow> cell list" where
  "series_op f xs ys = map (\<lambda>(x, y). f x y) (zip xs ys)"

text \<open>\<open>x > m\<close> on float64: False as soon as one side is NaN.\<close>

fun fgt :: "cell \<Rightarrow> cell \<Rightarrow> bool" where
  "fgt (Fin a) (Fin b) = (b < a)"
| "fgt NaN _ = False"
| "fgt _ NaN = False"
| "fgt PInf PInf = False"
| "fgt PInf _ = True"
| "fgt MInf _ = False"
| "fgt (Fin a) MInf = True"
| "fgt (Fin a) PInf = False"

text \<open>\<open>Series.cummax()\<close> (skipna): the running maximum starts at -inf, a missing cell
  stays missing and does not touch it.\<close>

fun cummax_from :: "cell \<Rightarrow> cell list \<Rightarrow> cell list" where
  "cummax_from m [] = []"
| "cummax_from m (c # cs) =
     (if isna c then NaN # cummax_from m cs
      else (let m' = (if fgt c m then c else m) in m' # cummax_from m' cs))"

definition cummax :: "cell list \<Rightarrow> cell list" where
  "cummax levels = cummax_from MInf levels"

definition drawdown :: "cell list \<Rightarrow> cell list" where
  "drawdown levels =
     (let roll_max = cummax levels
      in map (\<lambda>c. fsub c (Fin 1)) (series_op fdiv levels roll_max))"

subsection \<open>Rolling windows\<close>

text \<open>
  \<open>s.rolling(win)\<close> with an integer window: the window of row \<open>t\<close> is the rows
  \<open>t - win + 1 .. t\<close> that exist, and \<open>min_periods\<close> is \<open>win\<close>. pandas first replaces
  the infinite cells of the values by NaN (\<open>_prep_values\<close>); an aggregation then sees the
  cells of the window that are not NaN and yields NaN when there are fewer than
  \<open>min_periods\<close> of them.
\<close>

definition window :: "nat \<Rightarrow> 'a list \<Rightarrow> nat \<Rightarrow> 'a list" where
  "window win xs t = drop (t + 1 - win) (take (t + 1) xs)"

fun prep_values :: "cell \<Rightarrow> cell" where
  "prep_values (Fin r) = Fin r"
| "prep_values _ = NaN"

fun obs :: "cell list \<Rightarrow> real list" where
  "obs [] = []"
| "obs (Fin r # cs) = r # obs cs"
| "obs (_ # cs) = obs cs"

definition rolling :: "(cell list \<Rightarrow> cell) \<Rightarrow> nat \<Rightarrow> cell list \<Rightarrow> cell list" where
  "rolling agg win xs = map (\<lambda>t. agg (window win xs t)) [0..<length xs]"

text \<open>\<open>rolling(win).apply(func, raw=True)\<close>: \<open>func\<close> is called on the window when it
  has \<open>min_periods\<close> finite cells, which for a window of at most \<open>win\<close> rows means
  all of them.\<close>

definition roll_apply :: "(real list \<Rightarrow> real) \<Rightarrow> nat \<Rightarrow> cell list \<Rightarrow> cell" where
  "roll_apply func minp w = (let v = obs w in if minp \<le> length v then Fin (func v) else NaN)"

text \<open>
  The rolling covariance, variance and correlation of pandas, \<open>a.rolling(win).cov(b)\<close>,
  \<open>a.rolling(win).var()\<close> and \<open>a.rolling(win).corr(b)\<close>, are computed in float64 by an
  update that moves from one window to the next; what the rounding of that update leaves
  decides their value where the variance is close to zero. They are not computed here but
  taken as given, in \<open>lib\<close>. \<open>warm_up\<close> says what does not depend on the rounding: a
  result has one entry per row, and an entry with fewer than \<open>win\<close> rows behind it is
  missing (\<open>min_periods\<close> is \<open>win\<close>).
\<close>

record rolling_lib =
  rolling_cov :: "cell list \<Rightarrow> cell list \<Rightarrow> nat \<Rightarrow> cell list"
  rolling_var :: "cell list \<Rightarrow> nat \<Rightarrow> cell list"
  rolling_corr :: "cell list \<Rightarrow> cell list \<Rightarrow> nat \<Rightarrow> cell list"

definition warm_up :: "rolling_lib \<Rightarrow> bool" where
  "warm_up lib =
     (\<forall>a b win. length b = length a \<longrightarrow>
        length (rolling_cov lib a b win) = length a \<and>
        length (rolling_var lib a win) = length a \<and>
        length (rolling_corr lib a b win) = length a \<and>
        (\<forall>t. t + 1 < win \<and> t < length a \<longrightarrow>
           isna (rolling_cov lib a b win ! t) \<and> isna (rolling_var lib a win ! t) \<and>
           isna (rolling_corr lib a b win ! t)))"

text \<open>
  A library to run the assembler on concrete data. Its entries are missing in the warm-up of
  the window, as the contract wants (so every entry is missing when the series has fewer rows
  than the window, as with pandas), and 1 afterwards: the value 1 marks an entry that the
  library computes and stands for no computation of pandas.
\<close>

definition unit_lib :: rolling_lib where
  "unit_lib =
     \<lparr>rolling_cov = (\<lambda>a b win. map (\<lambda>t. if t + 1 < win then NaN else Fin 1) [0..<length a]),
      rolling_var = (\<lambda>a win. map (\<lambda>t. if t + 1 < win then NaN else Fin 1) [0..<length a]),
      rolling_corr = (\<lambda>a b win. map (\<lambda>t. if t + 1 < win then NaN else Fin 1) [0..<length a])\<rparr>"

definition rolling_beta :: "rolling_lib \<Rightarrow> cell list \<Rightarrow> cell list \<Rightarrow> nat \<Rightarrow> cell list" where
  "rolling_beta lib y_ret x_ret win =
     (let cov = rolling_cov lib y_ret x_ret win;
          var = rolling_var lib x_ret win
      in series_op fdiv cov var)"

definition rolling_period_return :: "cell list \<Rightarrow> nat \<Rightarrow> cell list" where
  "rolling_period_return returns win =
     map (\<lambda>c. fsub c (Fin 1))
       (rolling (roll_apply prod_list win) win (map prep_values (map (fadd (Fin 1)) returns)))"

subsection \<open>Pairwise metrics\<close>

text \<open>\<open>rets[name]\<close>: the column of that name (the names of a panel are the distinct
  short names of \<open>name_map\<close>), KeyError for a name that is no column.\<close>

definition getitem :: "frame \<Rightarrow> string \<Rightarrow> error + cell list" where
  "getitem f name = (case map_of (cols f) name of None \<Rightarrow> Inl (KeyError name) | Some c \<Rightarrow> Inr c)"

text \<open>A dict display: keys in order of first insertion, a repeated key keeps its place and
  takes the later value.\<close>

definition dict :: "(string \<times> 'a) list \<Rightarrow> (string \<times> 'a) list" where
  "dict kvs = foldl (\<lambda>d (k, v). AList.update k v d) [] kvs"

definition compute_pairwise_metrics ::
  "rolling_lib \<Rightarrow> frame \<Rightarrow> string \<Rightarrow> string \<Rightarrow> string
     \<Rightarrow> error + (frame \<times> frame \<times> frame)" where
  "compute_pairwise_metrics lib rets asset bench_a bench_b =
     (case getitem rets asset of Inl e \<Rightarrow> Inl e | Inr s_asset \<Rightarrow>
      case getitem rets bench_a of Inl e \<Rightarrow> Inl e | Inr s_a \<Rightarrow>
      case getitem rets bench_b of Inl e \<Rightarrow> Inl e | Inr s_b \<Rightarrow>
      let r_asset = rolling_period_return s_asset ROLL_RET_WIN;
          r_a = rolling_period_return s_a ROLL_RET_WIN;
          r_b = rolling_period_return s_b ROLL_RET_WIN;
          excess_df = dropna_all \<lparr>idx = idx rets, cols = dict
            [(asset @ ''-vs-'' @ bench_a, series_op fsub r_asset r_a),
             (asset @ ''-vs-'' @ bench_b, series_op fsub r_asset r_b)]\<rparr>;
          corr_df = dropna_all \<lparr>idx = idx rets, cols = dict
            [(''Corr('' @ asset @ '','' @ bench_a @ '')'', rolling_corr lib s_asset s_a ROLL_RISK_WIN),
             (''Corr('' @ asset @ '','' @ bench_b @ '')'', rolling_corr lib s_asset s_b ROLL_RISK_WIN)]\<rparr>;
          beta_df = dropna_all \<lparr>idx = idx rets, cols = dict
            [(''Beta('' @ asset @ '','' @ bench_a @ '')'', rolling_beta lib s_asset s_a ROLL_RISK_WIN),
             (''Beta('' @ asset @ '','' @ bench_b @ '')'', rolling_beta lib s_asset s_b ROLL_RISK_WIN)]\<rparr>
      in Inr (excess_df, corr_df, beta_df))"

subsection \<open>Rebased levels and daily returns, in \<open>main\<close>\<close>

text \<open>\<open>data.apply(lambda s: (s / s.iloc[0]) * 100.0)\<close>. On a panel without rows
  \<open>apply\<close> does not call the function and returns the panel.\<close>

definition rebase_col :: "cell list \<Rightarrow> cell list" where
  "rebase_col s = (case s of [] \<Rightarrow> [] | v # _ \<Rightarrow> map (\<lambda>x. fmul (fdiv x v) (Fin 100)) s)"

definition levels_rebased :: "frame \<Rightarrow> frame" where
  "levels_rebased data = map_cols rebase_col data"

text \<open>\<open>data.pct_change()\<close>: \<open>data / data.shift(1) - 1\<close>, with no filling of
  missing cells (pandas 3).\<close>

definition shift :: "cell list \<Rightarrow> cell list" where
  "shift s = take (length s) (NaN # s)"

definition pct_change_col :: "cell list \<Rightarrow> cell list" where
  "pct_change_col s = map (\<lambda>c. fsub c (Fin 1)) (series_op fdiv s (shift s))"

definition pct_change :: "frame \<Rightarrow> frame" where
  "pct_change data = map_cols pct_change_col data"

text \<open>\<open>rets = data.pct_change().dropna()\<close>.\<close>

definition rets :: "frame \<Rightarrow> frame" where
  "rets data = dropna_any (pct_change data)"

text \<open>A complete frame: every column as long as the index, and no missing cell.\<close>

definition complete :: "frame \<Rightarrow> bool" where
  "complete f = list_all (\<lambda>(n, c). length c = length (idx f) \<and> \<not> list_ex isna c) (cols f)"

text \<open>The running peak as the specification words it: \<open>peak[0] = level[0]\<close>,
  \<open>peak[t] = max(peak[t-1], level[t])\<close>.\<close>

fun peak :: "real list \<Rightarrow> nat \<Rightarrow> real" where
  "peak ls 0 = ls ! 0"
| "peak ls (Suc t) = max (peak ls t) (ls ! Suc t)"

text \<open>The number a finite cell holds.\<close>

fun fin_value :: "cell \<Rightarrow> real" where
  "fin_value (Fin r) = r"
| "fin_value _ = 0"

text \<open>
  The metrics assembler as the specification words it: the two window sizes are arguments of
  the call (\<open>W_ret\<close> for the period returns, \<open>W_risk\<close> for correlation and beta).
\<close>

definition metrics_with_windows ::
  "nat \<Rightarrow> nat \<Rightarrow> rolling_lib \<Rightarrow> frame \<Rightarrow> string \<Rightarrow> string \<Rightarrow> string
     \<Rightarrow> error + (frame \<times> frame \<times> frame)" where
  "metrics_with_windows w_ret w_risk lib r asset bench_a bench_b =
     (case getitem r asset of Inl e \<Rightarrow> Inl e | Inr s_asset \<Rightarrow>
      case getitem r bench_a of Inl e \<Rightarrow> Inl e | Inr s_a \<Rightarrow>
      case getitem r bench_b of Inl e \<Rightarrow> Inl e | Inr s_b \<Rightarrow>
      let r_asset = rolling_period_return s_asset w_ret;
          r_a = rolling_period_return s_a w_ret;
          r_b = rolling_period_return s_b w_ret;
          excess_df = dropna_all \<lparr>idx = idx r, cols = dict
            [(asset @ ''-vs-'' @ bench_a, series_op fsub r_asset r_a),
             (asset @ ''-vs-'' @ bench_b, series_op fsub r_asset r_b)]\<rparr>;
          corr_df = dropna_all \<lparr>idx = idx r, cols = dict
            [(''Corr('' @ asset @ '','' @ bench_a @ '')'', rolling_corr lib s_asset s_a w_risk),
             (''Corr('' @ asset @ '','' @ bench_b @ '')'', rolling_corr lib s_asset s_b w_risk)]\<rparr>;
          beta_df = dropna_all \<lparr>idx = idx r, cols = dict
            [(''Beta('' @ asset @ '','' @ bench_a @ '')'', rolling_beta lib s_asset s_a w_risk),
             (''Beta('' @ asset @ '','' @ bench_b @ '')'', rolling_beta lib s_asset s_b w_risk)]\<rparr>
      in Inr (excess_df, corr_df, beta_df))"

text \<open>
  The fills as the specification words them, for one column: forward-fill gives a row the
  last cell at or above it that is not missing, backward-fill the first cell at or below it
  that is not missing, and a cell stays missing when there is none. \<open>filled\<close> is
  forward-fill followed by backward-fill.
\<close>

definition last_valid :: "cell list \<Rightarrow> nat \<Rightarrow> cell" where
  "last_valid c j =
     (let v = filter (\<lambda>x. \<not> isna x) (take (Suc j) c) in if v = [] then NaN else last v)"

definition next_valid :: "cell list \<Rightarrow> nat \<Rightarrow> cell" where
  "next_valid c j =
     (let v = filter (\<lambda>x. \<not> isna x) (drop j c) in if v = [] then NaN else hd v)"

definition filled :: "cell list \<Rightarrow> cell list" where
  "filled c =
     (let f = map (last_valid c) [0..<length c] in map (next_valid f) [0..<length c])"

text \<open>
  The rolling period return as the specification words it: the product of \<open>1 + r\<close> over
  the \<open>W\<close> returns ending at \<open>t\<close>, minus 1, undefined until \<open>W\<close> returns are there.
\<close>

definition compounded :: "cell list \<Rightarrow> nat \<Rightarrow> nat \<Rightarrow> cell" where
  "compounded rs W t =
     (if W \<le> t + 1 \<and> (\<forall>i\<in>{t + 1 - W..t}. isfinite (rs ! i))
      then Fin ((\<Prod>i = t + 1 - W..t. 1 + fin_value (rs ! i)) - 1) else NaN)"

section \<open>Properties of the aligner\<close>

lemma build_panel_eq:
  "build_panel raw nm =
     (map (\<lambda>(b, s). warning b) (filter (\<lambda>(b, s). \<not> usable raw b) nm),
      map (\<lambda>(b, s). value_column (the (the (raw b))) s) (filter (\<lambda>(b, s). usable raw b) nm))"
proof (induction nm)
  case Nil
  show ?case by simp
next
  case (Cons a nm)
  obtain b s where a: "a = (b, s)" by (cases a)
  have step: "build_panel raw ((b, s) # nm) =
      (if usable raw b
       then (fst (build_panel raw nm), value_column (the (the (raw b))) s # snd (build_panel raw nm))
       else (warning b # fst (build_panel raw nm), snd (build_panel raw nm)))"
    by (auto simp: usable_def split: option.splits prod.splits)
  show ?case unfolding a step by (simp add: Cons.IH)
qed

lemma length_select: "length m = length xs \<Longrightarrow> length (select m xs) = length (filter id m)"
  unfolding select_def
  by (induction m xs rule: list_induct2) auto

lemma select_all_True: "length m = length xs \<Longrightarrow> \<forall>b\<in>set m. b \<Longrightarrow> select m xs = xs"
  unfolding select_def
  by (induction m xs rule: list_induct2) auto

lemma in_select: "x \<in> set (select m xs) \<Longrightarrow> \<exists>i. i < length xs \<and> i < length m \<and> m ! i \<and> xs ! i = x"
  unfolding select_def by (auto simp: in_set_zip)

lemma select_Cons: "select (b # m) (x # xs) = (if b then x # select m xs else select m xs)"
  by (simp add: select_def)

lemma select_Nil [simp]: "select [] xs = []" "select m [] = []"
  by (simp_all add: select_def)

lemma select_snoc:
  "length m = length xs \<Longrightarrow> select (m @ [b]) (xs @ [x]) = select m xs @ (if b then [x] else [])"
  by (simp add: select_def)

lemma select_map_upt:
  "length xs = n \<Longrightarrow> select (map P [0..<n]) xs = map (\<lambda>i. xs ! i) (filter P [0..<n])"
proof (induction xs arbitrary: n rule: rev_induct)
  case Nil
  then show ?case by simp
next
  case (snoc x xs)
  then obtain k where n: "n = Suc k" and k: "length xs = k" by (cases n) auto
  have a: "select (map P [0..<k]) xs = map (\<lambda>i. xs ! i) (filter P [0..<k])"
    by (rule snoc.IH[OF k])
  have b: "map (\<lambda>i. (xs @ [x]) ! i) (filter P [0..<k]) = map (\<lambda>i. xs ! i) (filter P [0..<k])"
    using k by (intro map_cong) (auto simp: nth_append)
  have "select (map P [0..<n]) (xs @ [x]) = select (map P [0..<k]) xs @ (if P k then [x] else [])"
    unfolding n using k by (simp add: select_snoc)
  then show ?case unfolding a n using b k by (simp add: nth_append)
qed

lemma set_select_subset: "set (select m xs) \<subseteq> set xs"
  using in_select[of _ m xs] by (metis nth_mem subsetI)

lemma sorted_select: "sorted xs \<Longrightarrow> sorted (select m xs)"
proof (induction xs arbitrary: m)
  case Nil
  show ?case by simp
next
  case (Cons x xs)
  show ?case
  proof (cases m)
    case Nil
    then show ?thesis by simp
  next
    case (Cons b bs)
    have "sorted (select bs xs)" using Cons.prems Cons.IH by simp
    moreover have "\<forall>y\<in>set (select bs xs). x \<le> y"
      using Cons.prems set_select_subset[of bs xs] by auto
    ultimately show ?thesis unfolding Cons by (simp add: select_Cons)
  qed
qed

lemma duplicated_from_length: "length (duplicated_from seen ds) = length ds"
  by (induction ds arbitrary: seen) auto

lemma duplicated_from_distinct:
  "distinct ds \<Longrightarrow> set seen \<inter> set ds = {} \<Longrightarrow>
   duplicated_from seen ds = replicate (length ds) False"
proof (induction ds arbitrary: seen)
  case Nil
  show ?case by simp
next
  case (Cons d ds)
  have "set (d # seen) \<inter> set ds = {}" using Cons.prems by auto
  moreover have "distinct ds" using Cons.prems by simp
  ultimately have "duplicated_from (d # seen) ds = replicate (length ds) False"
    by (rule Cons.IH[rotated])
  moreover have "d \<notin> set seen" using Cons.prems by auto
  ultimately show ?case by simp
qed

lemma select_keep_first:
  "set (select (map Not (duplicated_from seen ds)) ds) = set ds - set seen
   \<and> distinct (select (map Not (duplicated_from seen ds)) ds)"
proof (induction ds arbitrary: seen)
  case Nil
  show ?case by simp
next
  case (Cons d ds)
  show ?case using Cons.IH[of "d # seen"] by (auto simp: select_Cons)
qed

lemma idx_drop_duplicated:
  "set (idx (drop_duplicated g)) = set (idx g) \<and> distinct (idx (drop_duplicated g))"
  using select_keep_first[of "[]" "idx g"]
  by (simp add: drop_duplicated_def select_rows_def duplicated_def)

lemma length_ffill_from: "length (ffill_from p c) = length c"
  by (induction c arbitrary: p) auto

lemma wf_select_rows:
  "wf_frame f \<Longrightarrow> length m = length (idx f) \<Longrightarrow> wf_frame (select_rows m f)"
  by (auto simp: wf_frame_def select_rows_def list_all_iff length_select)

lemma drop_duplicated_distinct:
  assumes "wf_frame f" "distinct (idx f)"
  shows "drop_duplicated f = f"
proof -
  let ?m = "map Not (duplicated (idx f))"
  have m: "?m = replicate (length (idx f)) True"
    using duplicated_from_distinct[of "idx f" "[]"] assms(2) by (simp add: duplicated_def)
  have a: "select ?m (idx f) = idx f" unfolding m by (rule select_all_True) auto
  have b: "(n, c) \<in> set (cols f) \<Longrightarrow> select ?m c = c" for n c
    unfolding m using assms(1) by (intro select_all_True) (auto simp: wf_frame_def list_all_iff)
  have "map (\<lambda>(n, c). (n, select ?m c)) (cols f) = cols f"
    by (rule map_idI) (auto simp: b)
  then show ?thesis unfolding drop_duplicated_def select_rows_def using a by simp
qed

lemma wf_map_cols:
  "wf_frame f \<Longrightarrow> (\<And>c. length (g c) = length c) \<Longrightarrow> wf_frame (map_cols g f)"
  by (auto simp: wf_frame_def map_cols_def list_all_iff)

lemma wf_ffill: "wf_frame f \<Longrightarrow> wf_frame (ffill f)"
  unfolding ffill_def by (rule wf_map_cols) (simp_all add: ffill_col_def length_ffill_from)

lemma wf_bfill: "wf_frame f \<Longrightarrow> wf_frame (bfill f)"
  unfolding bfill_def by (rule wf_map_cols) (simp_all add: bfill_col_def ffill_col_def length_ffill_from)

lemma idx_fill [simp]: "idx (ffill f) = idx f" "idx (bfill f) = idx f"
  by (simp_all add: ffill_def bfill_def map_cols_def)

lemma complete_dropna_any:
  assumes "wf_frame f"
  shows "complete (dropna_any f)"
proof -
  let ?m = "map (\<lambda>i. \<not> row_any_na f i) [0..<length (idx f)]"
  have len: "length ?m = length (idx f)" by simp
  have "length (select ?m c) = length (select ?m (idx f)) \<and> \<not> list_ex isna (select ?m c)"
    if nc: "(n, c) \<in> set (cols f)" for n c
  proof -
    have lc: "length c = length (idx f)" using assms nc by (auto simp: wf_frame_def list_all_iff)
    have "length (select ?m c) = length (select ?m (idx f))"
      using lc by (simp add: length_select)
    moreover have "\<not> isna x" if "x \<in> set (select ?m c)" for x
    proof -
      from in_select[OF that] obtain i where i: "i < length c" "i < length ?m" "?m ! i" "c ! i = x"
        by blast
      then have "\<not> row_any_na f i" by simp
      then show ?thesis using nc i(4) by (auto simp: row_any_na_def list_ex_iff)
    qed
    ultimately show ?thesis by (auto simp: list_ex_iff)
  qed
  then show ?thesis
    by (auto simp: complete_def dropna_any_def select_rows_def list_all_iff)
qed

lemma reindex_col_nth:
  assumes "length c = length old" "distinct old" "\<forall>i\<in>set p. i < length old"
  shows "map (\<lambda>i. c ! i) p = reindex_col (map (\<lambda>i. old ! i) p) old c"
  using assms by (auto simp: reindex_col_def map_of_zip_nth)

lemma take_rows_reindex_col:
  assumes "\<forall>i\<in>set p. i < length new"
  shows "map (\<lambda>i. reindex_col new old c ! i) p = reindex_col (map (\<lambda>i. new ! i) p) old c"
  using assms by (auto simp: reindex_col_def)

lemma wf_drop_duplicated: "wf_frame f \<Longrightarrow> wf_frame (drop_duplicated f)"
  unfolding drop_duplicated_def
  by (rule wf_select_rows) (simp_all add: duplicated_def duplicated_from_length)

lemma sorted_drop_duplicated: "sorted (idx f) \<Longrightarrow> sorted (idx (drop_duplicated f))"
  by (simp add: drop_duplicated_def select_rows_def sorted_select)

lemma align_not_runtime: "align a p \<noteq> Inl (RuntimeError s)"
  by (auto simp: align_def concat_axis1_def Let_def split: sum.splits list.splits if_splits)

lemma select_rows_take_rows:
  assumes "wf_frame f"
  shows "select_rows (map P [0..<length (idx f)]) f = take_rows (filter P [0..<length (idx f)]) f"
proof -
  have "select (map P [0..<length (idx f)]) c = map (\<lambda>i. c ! i) (filter P [0..<length (idx f)])"
    if "(n, c) \<in> set (cols f)" for n c
    using assms that by (intro select_map_upt) (auto simp: wf_frame_def list_all_iff)
  then have "map (\<lambda>(n, c). (n, select (map P [0..<length (idx f)]) c)) (cols f)
      = map (\<lambda>(n, c). (n, map (\<lambda>i. c ! i) (filter P [0..<length (idx f)]))) (cols f)"
    by (intro map_cong) auto
  then show ?thesis by (simp add: select_rows_def take_rows_def select_map_upt)
qed

lemma duplicated_from_nth:
  "i < length ds \<Longrightarrow> duplicated_from seen ds ! i = (ds ! i \<in> set seen \<union> set (take i ds))"
proof (induction ds arbitrary: seen i)
  case Nil
  then show ?case by simp
next
  case (Cons d ds)
  show ?case
  proof (cases i)
    case 0
    then show ?thesis by simp
  next
    case (Suc k)
    then have "k < length ds" using Cons.prems by simp
    from Cons.IH[OF this, of "d # seen"] show ?thesis using Suc by auto
  qed
qed

lemma drop_duplicated_first:
  assumes "wf_frame g"
  shows "drop_duplicated g =
     take_rows (filter (\<lambda>i. idx g ! i \<notin> set (take i (idx g))) [0..<length (idx g)]) g"
proof -
  have "map Not (duplicated (idx g)) = map (\<lambda>i. idx g ! i \<notin> set (take i (idx g))) [0..<length (idx g)]"
    by (rule nth_equalityI) (simp_all add: duplicated_def duplicated_from_length duplicated_from_nth)
  then show ?thesis unfolding drop_duplicated_def by (simp only: select_rows_take_rows[OF assms])
qed

lemma is_argsort_stable: "is_argsort stable_argsort"
proof -
  have "mset (stable_argsort ds) = mset [0..<length ds]" for ds
    unfolding stable_argsort_def by (rule mset_sort)
  moreover have "sorted (map (\<lambda>i. ds ! i) (stable_argsort ds))" for ds
    unfolding stable_argsort_def by (rule sorted_sort_key)
  ultimately show ?thesis unfolding is_argsort_def by blast
qed

lemma sort_index_take_rows:
  assumes a: "is_argsort a" and wf: "wf_frame f"
  shows "\<exists>p. sort_index a f = take_rows p f \<and> (\<forall>i\<in>set p. i < length (idx f))
           \<and> map (\<lambda>i. idx f ! i) p = sort (idx f)"
proof (cases "sorted (idx f)")
  case True
  let ?p = "[0..<length (idx f)]"
  have "map (\<lambda>i. c ! i) ?p = c" if "(n, c) \<in> set (cols f)" for n c
  proof -
    have "length c = length (idx f)" using wf that by (auto simp: wf_frame_def list_all_iff)
    then show ?thesis using map_nth[of c] by simp
  qed
  then have "map (\<lambda>(n, c). (n, map (\<lambda>i. c ! i) ?p)) (cols f) = cols f"
    by (intro map_idI) auto
  then have "take_rows ?p f = f" by (simp add: take_rows_def map_nth)
  moreover have "map (\<lambda>i. idx f ! i) ?p = sort (idx f)" using True by (simp add: map_nth sorted_sort_id)
  ultimately show ?thesis using True by (intro exI[of _ ?p]) (simp add: sort_index_def)
next
  case False
  let ?p = "a (idx f)"
  have m: "mset ?p = mset [0..<length (idx f)]" and s: "sorted (map (\<lambda>i. idx f ! i) ?p)"
    using a unfolding is_argsort_def by blast+
  have "set ?p = set [0..<length (idx f)]" using m by (rule mset_eq_setD)
  then have r: "\<forall>i\<in>set ?p. i < length (idx f)" by simp
  have "mset (map (\<lambda>i. idx f ! i) ?p) = mset (map (\<lambda>i. idx f ! i) [0..<length (idx f)])"
    using m by (metis mset_map)
  then have "mset (map (\<lambda>i. idx f ! i) ?p) = mset (idx f)" by (simp add: map_nth)
  then have "sort (idx f) = map (\<lambda>i. idx f ! i) ?p" using s by (rule properties_for_sort)
  then show ?thesis using False r by (intro exI[of _ ?p]) (simp add: sort_index_def)
qed

lemma idx_sort_index:
  assumes "is_argsort a" and "wf_frame f"
  shows "idx (sort_index a f) = sort (idx f)"
  using sort_index_take_rows[OF assms] by (auto simp: take_rows_def)

lemma wf_take_rows: "wf_frame (take_rows p f)"
  by (auto simp: wf_frame_def take_rows_def list_all_iff)

lemma wf_sort_index: "wf_frame f \<Longrightarrow> wf_frame (sort_index a f)"
  by (simp add: sort_index_def wf_take_rows)

lemma mset_fold_remove1: "mset (fold remove1 xs ys) = mset ys - mset xs"
  by (induction xs arbitrary: ys) (simp_all add: diff_diff_add)

lemma mset_index_union:
  "mset (sort (s @ fold remove1 s t)) = mset s \<union># mset t"
  by (simp add: mset_fold_remove1 union_mset_def)

lemma set_index_union: "set (index_union s t) = set s \<union> set t"
proof -
  have "set (sort (s @ fold remove1 s t)) = set s \<union> set t"
    using arg_cong[OF mset_index_union[of s t], of set_mset] by simp
  then show ?thesis by (auto simp: index_union_def)
qed

lemma distinct_index_union:
  assumes "distinct s" and "distinct t"
  shows "distinct (index_union s t)"
proof -
  have "count (mset (sort (s @ fold remove1 s t))) x \<le> 1" for x
    unfolding mset_index_union using assms by (simp add: distinct_count_atmost_1)
  then have "distinct (sort (s @ fold remove1 s t))"
    unfolding distinct_count_atmost_1 by (metis count_mset_0_iff le_neq_implies_less less_one)
  then show ?thesis using assms by (simp add: index_union_def)
qed

lemma set_foldl_index_union:
  "set (foldl index_union s ds) = set s \<union> (\<Union>d\<in>set ds. set d)"
  by (induction ds arbitrary: s) (auto simp: set_index_union)

lemma distinct_foldl_index_union:
  "distinct s \<Longrightarrow> \<forall>d\<in>set ds. distinct d \<Longrightarrow> distinct (foldl index_union s ds)"
  by (induction ds arbitrary: s) (auto simp: distinct_index_union)

lemma set_union_indexes:
  "fs \<noteq> [] \<Longrightarrow> set (union_indexes (map idx fs)) = (\<Union>f\<in>set fs. set (idx f))"
  by (cases fs) (auto simp: union_indexes_def set_foldl_index_union)

lemma distinct_union_indexes:
  "fs \<noteq> [] \<Longrightarrow> \<forall>f\<in>set fs. distinct (idx f) \<Longrightarrow> distinct (union_indexes (map idx fs))"
  by (cases fs) (auto simp: union_indexes_def intro!: distinct_foldl_index_union)

lemma reindex_col_same:
  assumes "length c = length ds" and "distinct ds"
  shows "reindex_col ds ds c = c"
  using assms by (intro nth_equalityI) (auto simp: reindex_col_def map_of_zip_nth)

lemma concat_axis1_nonempty:
  "fs \<noteq> [] \<Longrightarrow> concat_axis1 fs =
     (let new = union_indexes (map idx fs) in
      if list_ex (\<lambda>g. idx g \<noteq> new \<and> \<not> distinct (idx g)) fs then Inl InvalidIndexError
      else Inr \<lparr>idx = new,
               cols = concat (map (\<lambda>g. if idx g = new then cols g else cols (reindex new g)) fs)\<rparr>)"
  by (auto simp: concat_axis1_def neq_Nil_conv)

lemma concat_axis1_Inr:
  assumes ne: "fs \<noteq> []" and wf: "\<forall>f\<in>set fs. wf_frame f" and m: "concat_axis1 fs = Inr m"
  shows "wf_frame m \<and> set (idx m) = (\<Union>f\<in>set fs. set (idx f))"
proof -
  let ?new = "union_indexes (map idx fs)"
  have mm: "m = \<lparr>idx = ?new,
      cols = concat (map (\<lambda>g. if idx g = ?new then cols g else cols (reindex ?new g)) fs)\<rparr>"
    using m unfolding concat_axis1_nonempty[OF ne] Let_def by (simp split: if_splits)
  have "length c = length ?new"
    if g: "g \<in> set fs" and c: "(n, c) \<in> set (if idx g = ?new then cols g else cols (reindex ?new g))"
    for g n c
  proof (cases "idx g = ?new")
    case True
    then have "(n, c) \<in> set (cols g)" using c by simp
    then have "length c = length (idx g)" using wf g by (fastforce simp: wf_frame_def list_all_iff)
    then show ?thesis using True by simp
  next
    case False
    then show ?thesis using c by (auto simp: reindex_def reindex_col_def)
  qed
  then have "wf_frame m" unfolding mm by (auto simp: wf_frame_def list_all_iff)
  moreover have "set (idx m) = (\<Union>f\<in>set fs. set (idx f))"
    unfolding mm using set_union_indexes[OF ne] by simp
  ultimately show ?thesis by blast
qed

lemma concat_axis1_Inl:
  assumes "fs \<noteq> []" and "concat_axis1 fs = Inl e"
  shows "e = InvalidIndexError \<and> (\<exists>f\<in>set fs. \<not> distinct (idx f))"
  using assms(2) unfolding concat_axis1_nonempty[OF assms(1)] Let_def
  by (auto simp: list_ex_iff split: if_splits)

lemma concat_axis1_ok:
  assumes ne: "fs \<noteq> []" and ok: "\<forall>f\<in>set fs. wf_frame f \<and> distinct (idx f)"
  shows "concat_axis1 fs =
     Inr \<lparr>idx = union_indexes (map idx fs),
          cols = concat (map (\<lambda>g. cols (reindex (union_indexes (map idx fs)) g)) fs)\<rparr>"
proof -
  let ?new = "union_indexes (map idx fs)"
  have nd: "\<not> list_ex (\<lambda>g. idx g \<noteq> ?new \<and> \<not> distinct (idx g)) fs"
    using ok by (auto simp: list_ex_iff)
  have "(if idx g = ?new then cols g else cols (reindex ?new g)) = cols (reindex ?new g)"
    if g: "g \<in> set fs" for g
  proof (cases "idx g = ?new")
    case False
    then show ?thesis by simp
  next
    case True
    have "reindex_col (idx g) (idx g) c = c" if "(n, c) \<in> set (cols g)" for n c
      using ok g that by (intro reindex_col_same) (auto simp: wf_frame_def list_all_iff)
    then have "map (\<lambda>(n, c). (n, reindex_col (idx g) (idx g) c)) (cols g) = cols g"
      by (intro map_idI) auto
    then show ?thesis using True by (simp add: reindex_def)
  qed
  then have eq: "map (\<lambda>g. if idx g = ?new then cols g else cols (reindex ?new g)) fs
      = map (\<lambda>g. cols (reindex ?new g)) fs"
    by (intro map_cong) auto
  show ?thesis unfolding concat_axis1_nonempty[OF ne] Let_def eq using nd by simp
qed

lemma ffill_from_nth:
  "j < length c \<Longrightarrow> ffill_from prev c ! j =
     (let v = filter (\<lambda>x. \<not> isna x) (take (Suc j) c) in if v = [] then prev else last v)"
proof (induction c arbitrary: prev j)
  case Nil
  then show ?case by simp
next
  case (Cons x c)
  show ?case
  proof (cases j)
    case 0
    then show ?thesis by simp
  next
    case (Suc k)
    then have k: "k < length c" using Cons.prems by simp
    show ?thesis using Cons.IH[OF k] Suc by (simp add: Let_def)
  qed
qed

lemma ffill_col_eq: "ffill_col c = map (last_valid c) [0..<length c]"
  by (rule nth_equalityI)
     (simp_all add: ffill_col_def length_ffill_from ffill_from_nth last_valid_def)

lemma length_ffill_col [simp]: "length (ffill_col c) = length c"
  by (simp add: ffill_col_def length_ffill_from)

lemma length_bfill_col [simp]: "length (bfill_col c) = length c"
  by (simp add: bfill_col_def)

lemma bfill_col_eq: "bfill_col c = map (next_valid c) [0..<length c]"
proof (rule nth_equalityI)
  show "length (bfill_col c) = length (map (next_valid c) [0..<length c])" by simp
next
  fix j assume "j < length (bfill_col c)"
  then have j: "j < length c" by simp
  let ?n = "length c"
  have t: "take (Suc (?n - Suc j)) (rev c) = rev (drop j c)"
    using j by (simp add: take_rev Suc_diff_Suc)
  have "bfill_col c ! j = ffill_col (rev c) ! (?n - Suc j)"
    using j by (simp add: bfill_col_def rev_nth)
  also have "\<dots> = last_valid (rev c) (?n - Suc j)"
    using j by (simp add: ffill_col_eq)
  also have "\<dots> = next_valid c j"
    unfolding last_valid_def next_valid_def t Let_def
    by (simp add: rev_filter[symmetric] last_rev)
  finally show "bfill_col c ! j = map (next_valid c) [0..<length c] ! j" using j by simp
qed

lemma filled_eq: "bfill_col (ffill_col c) = filled c"
  by (simp add: filled_def Let_def bfill_col_eq ffill_col_eq)

lemma length_filled [simp]: "length (filled c) = length c"
  by (simp add: filled_def Let_def)

lemma dropna_any_take_rows:
  assumes "wf_frame f"
  shows "dropna_any f =
     take_rows (filter (\<lambda>j. list_all (\<lambda>(n, c). \<not> isna (c ! j)) (cols f)) [0..<length (idx f)]) f"
proof -
  have "(\<lambda>j. \<not> row_any_na f j) = (\<lambda>j. list_all (\<lambda>(n, c). \<not> isna (c ! j)) (cols f))"
    by (auto simp: row_any_na_def list_all_iff list_ex_iff)
  then show ?thesis unfolding dropna_any_def select_rows_take_rows[OF assms] by simp
qed

lemma reindex_col_cell:
  assumes "length c = length ds" and "distinct ds"
  shows "(d \<notin> set ds \<longrightarrow> (case map_of (zip ds c) d of None \<Rightarrow> NaN | Some v \<Rightarrow> v) = NaN)
       \<and> (\<forall>i<length ds. ds ! i = d \<longrightarrow> (case map_of (zip ds c) d of None \<Rightarrow> NaN | Some v \<Rightarrow> v) = c ! i)"
proof -
  have "d \<notin> set ds \<Longrightarrow> map_of (zip ds c) d = None"
    using assms(1) by (simp add: map_of_zip_is_None)
  moreover have "map_of (zip ds c) d = Some (c ! i)" if "i < length ds" "ds ! i = d" for i
    using map_of_zip_nth[of ds c i] assms that by auto
  ultimately show ?thesis by auto
qed

lemma sorted_frame_cols:
  assumes a: "is_argsort a" and ne: "fs \<noteq> []"
    and ok: "\<forall>f\<in>set fs. wf_frame f \<and> distinct (idx f)"
    and m: "m = \<lparr>idx = union_indexes (map idx fs),
               cols = concat (map (\<lambda>g. cols (reindex (union_indexes (map idx fs)) g)) fs)\<rparr>"
  shows "sort_index a m =
     \<lparr>idx = sort (idx m), cols = concat (map (\<lambda>g. cols (reindex (sort (idx m)) g)) fs)\<rparr>"
proof -
  let ?new = "union_indexes (map idx fs)"
  have wfm: "wf_frame m"
    unfolding m by (auto simp: wf_frame_def list_all_iff reindex_def reindex_col_def)
  from sort_index_take_rows[OF a wfm] obtain p where p: "sort_index a m = take_rows p m"
    "\<forall>i\<in>set p. i < length (idx m)" "map (\<lambda>i. idx m ! i) p = sort (idx m)" by blast
  have im: "idx m = ?new" by (simp add: m)
  have "map (\<lambda>(n, c). (n, map (\<lambda>i. c ! i) p)) (cols (reindex (idx m) g))
      = cols (reindex (sort (idx m)) g)" for g
    using p(2) by (auto simp: reindex_def take_rows_reindex_col p(3))
  then have "map (\<lambda>(n, c). (n, map (\<lambda>i. c ! i) p)) (concat (map (\<lambda>g. cols (reindex (idx m) g)) fs))
      = concat (map (\<lambda>g. cols (reindex (sort (idx m)) g)) fs)"
    by (simp add: map_concat comp_def)
  then have "cols (take_rows p m) = concat (map (\<lambda>g. cols (reindex (sort (idx m)) g)) fs)"
    unfolding take_rows_def using im by (simp add: m)
  moreover have "idx (take_rows p m) = sort (idx m)" using p(3) by (simp add: take_rows_def)
  ultimately show ?thesis unfolding p(1) by simp
qed

lemma fills_frame:
  "bfill (ffill u) = \<lparr>idx = idx u, cols = map (\<lambda>(n, m). (n, filled m)) (cols u)\<rparr>"
  by (simp add: bfill_def ffill_def map_cols_def filled_eq comp_def split_def)

lemma align_unique_dates:
  assumes a: "is_argsort argsort" and ne: "panel \<noteq> []"
    and ok: "\<forall>f\<in>set panel. wf_frame f \<and> distinct (idx f)"
    and D: "D = sorted_list_of_set (\<Union>f\<in>set panel. set (idx f))"
    and M: "merged = concat (map (\<lambda>f. map (\<lambda>(n, c). (n, reindex_col D (idx f) c)) (cols f)) panel)"
    and K: "keep = filter (\<lambda>j. list_all (\<lambda>(n, m). \<not> isna (filled m ! j)) merged) [0..<length D]"
    and R: "result = \<lparr>idx = map (\<lambda>j. D ! j) keep,
                      cols = map (\<lambda>(n, m). (n, map (\<lambda>j. filled m ! j) keep)) merged\<rparr>"
  shows "align argsort panel = Inr result"
proof -
  let ?new = "union_indexes (map idx panel)"
  let ?m = "\<lparr>idx = ?new, cols = concat (map (\<lambda>g. cols (reindex ?new g)) panel)\<rparr>"
  have c: "concat_axis1 panel = Inr ?m" by (rule concat_axis1_ok[OF ne ok])
  have dn: "distinct ?new" using ok by (intro distinct_union_indexes[OF ne]) simp
  have sn: "set ?new = (\<Union>f\<in>set panel. set (idx f))" by (rule set_union_indexes[OF ne])
  have "sorted_list_of_set (set ?new) = sort ?new"
    using dn by (simp add: sorted_list_of_set_sort_remdups distinct_remdups_id)
  then have sD: "sort (idx ?m) = D" unfolding D sn by simp
  have u: "sort_index argsort ?m = \<lparr>idx = D, cols = concat (map (\<lambda>g. cols (reindex D g)) panel)\<rparr>"
    using sorted_frame_cols[OF a ne ok refl] unfolding sD .
  let ?u = "\<lparr>idx = D, cols = concat (map (\<lambda>g. cols (reindex D g)) panel)\<rparr>"
  have cu: "cols ?u = merged" by (simp add: M reindex_def)
  have wfu: "wf_frame ?u"
    by (auto simp: wf_frame_def list_all_iff reindex_def reindex_col_def)
  have dD: "distinct D" unfolding D by simp
  have dd: "drop_duplicated ?u = ?u" by (rule drop_duplicated_distinct[OF wfu]) (simp add: dD)
  let ?F = "\<lparr>idx = D, cols = map (\<lambda>(n, m). (n, filled m)) merged\<rparr>"
  have F: "bfill (ffill ?u) = ?F" unfolding fills_frame cu by simp
  have lm: "\<forall>(n, m)\<in>set merged. length m = length D"
    unfolding M by (auto simp: reindex_col_def)
  have wfF: "wf_frame ?F"
    using lm by (auto simp: wf_frame_def list_all_iff)
  have k: "filter (\<lambda>j. list_all (\<lambda>(n, c). \<not> isna (c ! j)) (cols ?F)) [0..<length (idx ?F)] = keep"
    unfolding K by (simp add: list_all_iff split_def)
  have "dropna_any ?F = take_rows keep ?F"
    unfolding dropna_any_take_rows[OF wfF] k ..
  also have "\<dots> = result" unfolding R take_rows_def by (simp add: comp_def split_def)
  finally have r: "dropna_any ?F = result" .
  show ?thesis unfolding align_def c sum.case u dd F r ..
qed

lemma reindex_cells:
  assumes ok: "\<forall>f\<in>set panel. wf_frame f \<and> distinct (idx f)"
  shows "\<forall>f\<in>set panel. \<forall>(n, c)\<in>set (cols f). \<forall>j<length D.
           (D ! j \<notin> set (idx f) \<longrightarrow> reindex_col D (idx f) c ! j = NaN)
         \<and> (\<forall>i<length (idx f). idx f ! i = D ! j \<longrightarrow> reindex_col D (idx f) c ! j = c ! i)"
proof (intro ballI allI impI, clarify)
  fix f n c j assume f: "f \<in> set panel" and nc: "(n, c) \<in> set (cols f)" and j: "j < length D"
  have l: "length c = length (idx f)" using ok f nc by (fastforce simp: wf_frame_def list_all_iff)
  have d: "distinct (idx f)" using ok f by simp
  show "(D ! j \<notin> set (idx f) \<longrightarrow> reindex_col D (idx f) c ! j = NaN)
         \<and> (\<forall>i<length (idx f). idx f ! i = D ! j \<longrightarrow> reindex_col D (idx f) c ! j = c ! i)"
    using reindex_col_cell[OF l d, of "D ! j"] j by (simp add: reindex_col_def)
qed

lemma align_general:
  assumes a: "is_argsort argsort" and ne: "panel \<noteq> []" and wf: "\<forall>f\<in>set panel. wf_frame f"
    and m: "concat_axis1 panel = Inr m"
  shows "idx (drop_duplicated (sort_index argsort m)) = sorted_list_of_set (\<Union>f\<in>set panel. set (idx f))
       \<and> align argsort panel = Inr (dropna_any (bfill (ffill (drop_duplicated (sort_index argsort m)))))
       \<and> complete (dropna_any (bfill (ffill (drop_duplicated (sort_index argsort m)))))"
proof -
  let ?u = "drop_duplicated (sort_index argsort m)"
  from concat_axis1_Inr[OF ne wf m]
  have wfm: "wf_frame m" and sm: "set (idx m) = (\<Union>f\<in>set panel. set (idx f))" by blast+
  have si: "idx (sort_index argsort m) = sort (idx m)" by (rule idx_sort_index[OF a wfm])
  then have "sorted (idx (sort_index argsort m))" by simp
  then have s: "sorted (idx ?u)" by (rule sorted_drop_duplicated)
  have d: "distinct (idx ?u)" and e: "set (idx ?u) = set (idx (sort_index argsort m))"
    using idx_drop_duplicated[of "sort_index argsort m"] by simp_all
  have "set (idx ?u) = (\<Union>f\<in>set panel. set (idx f))" using e sm by (simp add: si)
  then have 1: "idx ?u = sorted_list_of_set (\<Union>f\<in>set panel. set (idx f))"
    using s d by (metis sorted_list_of_set.idem_if_sorted_distinct)
  have 2: "align argsort panel = Inr (dropna_any (bfill (ffill ?u)))" by (simp add: align_def m)
  have 3: "complete (dropna_any (bfill (ffill ?u)))"
    by (intro complete_dropna_any wf_bfill wf_ffill wf_drop_duplicated wf_sort_index wfm)
  from 1 2 3 show ?thesis by blast
qed

lemma align_failure:
  assumes "panel \<noteq> []" and "align argsort panel = Inl e"
  shows "e = InvalidIndexError \<and> (\<exists>f\<in>set panel. \<not> distinct (idx f))"
proof -
  have "concat_axis1 panel = Inl e" using assms(2) by (auto simp: align_def split: sum.splits)
  then show ?thesis by (rule concat_axis1_Inl[OF assms(1)])
qed

text \<open>
  C1. Let the panel be a non-empty list of well-formed frames, \<open>D\<close> the ascending list
  of the distinct dates of all of them, \<open>merged\<close> the columns of all frames laid out on
  \<open>D\<close> (a cell is the frame's cell at that date, and missing where the frame has not the
  date), and \<open>result\<close> the frame that keeps, of the forward- then backward-filled
  columns, the rows with no missing cell. When no frame repeats a date the aligner returns
  \<open>result\<close>, which is complete: every column has the length of the index and no
  missing cell. Whenever the concatenation succeeds, also on repeated dates, the index after
  sorting and dropping duplicated dates is \<open>D\<close> and the returned panel is complete.
  Dropping duplicates keeps the first row of each date; forward-fill gives a row the last
  cell at or above it that is not missing, and backward-fill the first one at or below it.
  The aligner fails only with the \<open>InvalidIndexError\<close> of pandas, and only when a frame
  repeats a date. The sort is any \<open>argsort\<close> that sorts, since the order numpy gives to
  equal dates is not fixed.
\<close>

theorem align_complete:
  assumes a: "is_argsort argsort" and ne: "panel \<noteq> []" and wf: "\<forall>f\<in>set panel. wf_frame f"
    and D: "D = sorted_list_of_set (\<Union>f\<in>set panel. set (idx f))"
    and M: "merged = concat (map (\<lambda>f. map (\<lambda>(n, c). (n, reindex_col D (idx f) c)) (cols f)) panel)"
    and K: "keep = filter (\<lambda>j. list_all (\<lambda>(n, m). \<not> isna (filled m ! j)) merged) [0..<length D]"
    and R: "result = \<lparr>idx = map (\<lambda>j. D ! j) keep,
                      cols = map (\<lambda>(n, m). (n, map (\<lambda>j. filled m ! j) keep)) merged\<rparr>"
  shows "((\<forall>f\<in>set panel. distinct (idx f)) \<longrightarrow>
            align argsort panel = Inr result \<and> complete result
          \<and> (\<forall>f\<in>set panel. \<forall>(n, c)\<in>set (cols f). \<forall>j<length D.
                (D ! j \<notin> set (idx f) \<longrightarrow> reindex_col D (idx f) c ! j = NaN)
              \<and> (\<forall>i<length (idx f). idx f ! i = D ! j \<longrightarrow> reindex_col D (idx f) c ! j = c ! i)))
       \<and> (\<forall>m. concat_axis1 panel = Inr m \<longrightarrow>
             idx (drop_duplicated (sort_index argsort m)) = D
           \<and> align argsort panel = Inr (dropna_any (bfill (ffill (drop_duplicated (sort_index argsort m)))))
           \<and> complete (dropna_any (bfill (ffill (drop_duplicated (sort_index argsort m))))))
       \<and> (\<forall>g. wf_frame g \<longrightarrow> drop_duplicated g =
             take_rows (filter (\<lambda>i. idx g ! i \<notin> set (take i (idx g))) [0..<length (idx g)]) g)
       \<and> (\<forall>c. ffill_col c = map (last_valid c) [0..<length c]
              \<and> bfill_col c = map (next_valid c) [0..<length c])
       \<and> (\<forall>e. align argsort panel = Inl e \<longrightarrow>
             e = InvalidIndexError \<and> (\<exists>f\<in>set panel. \<not> distinct (idx f)))"
proof -
  have unique: "align argsort panel = Inr result \<and> complete result
          \<and> (\<forall>f\<in>set panel. \<forall>(n, c)\<in>set (cols f). \<forall>j<length D.
                (D ! j \<notin> set (idx f) \<longrightarrow> reindex_col D (idx f) c ! j = NaN)
              \<and> (\<forall>i<length (idx f). idx f ! i = D ! j \<longrightarrow> reindex_col D (idx f) c ! j = c ! i))"
    if dist: "\<forall>f\<in>set panel. distinct (idx f)"
  proof -
    have ok: "\<forall>f\<in>set panel. wf_frame f \<and> distinct (idx f)" using wf dist by blast
    have r: "align argsort panel = Inr result" by (rule align_unique_dates[OF a ne ok D M K R])
    from concat_axis1_ok[OF ne ok] obtain m where m: "concat_axis1 panel = Inr m" by blast
    have "complete result" using align_general[OF a ne wf m] r by simp
    then show ?thesis using r reindex_cells[OF ok] by blast
  qed
  have general: "idx (drop_duplicated (sort_index argsort m)) = D
           \<and> align argsort panel = Inr (dropna_any (bfill (ffill (drop_duplicated (sort_index argsort m)))))
           \<and> complete (dropna_any (bfill (ffill (drop_duplicated (sort_index argsort m)))))"
    if "concat_axis1 panel = Inr m" for m
    unfolding D by (rule align_general[OF a ne wf that])
  show ?thesis
    using unique general drop_duplicated_first ffill_col_eq bfill_col_eq align_failure[OF ne]
    by blast
qed

theorem align_complete_witness:
  "align stable_argsort
     [\<lparr>idx = [2, 4], cols = [(''A'', [Fin 10, Fin 20])]\<rparr>,
      \<lparr>idx = [1, 2, 3], cols = [(''B'', [Fin 5, NaN, Fin 7])]\<rparr>]
     = Inr \<lparr>idx = [1, 2, 3, 4],
            cols = [(''A'', [Fin 10, Fin 10, Fin 10, Fin 20]), (''B'', [Fin 5, Fin 5, Fin 7, Fin 7])]\<rparr>
   \<and> complete \<lparr>idx = [1, 2, 3, 4],
            cols = [(''A'', [Fin 10, Fin 10, Fin 10, Fin 20]), (''B'', [Fin 5, Fin 5, Fin 7, Fin 7])]\<rparr>
   \<and> align stable_argsort
     [\<lparr>idx = [2, 4], cols = [(''A'', [Fin 10, Fin 20])]\<rparr>,
      \<lparr>idx = [3], cols = [(''C'', [NaN])]\<rparr>]
     = Inr \<lparr>idx = [], cols = [(''A'', []), (''C'', [])]\<rparr>
   \<and> align stable_argsort
     [\<lparr>idx = [1, 1, 2], cols = [(''A'', [Fin 1, Fin 2, NaN])]\<rparr>,
      \<lparr>idx = [1, 2], cols = [(''B'', [Fin 5, Fin 7])]\<rparr>]
     = Inr \<lparr>idx = [1, 2], cols = [(''A'', [Fin 1, Fin 1]), (''B'', [Fin 5, Fin 7])]\<rparr>"
proof -
  let ?P = "[\<lparr>idx = [2, 4], cols = [(''A'', [Fin 10, Fin 20])]\<rparr>,
             \<lparr>idx = [1, 2, 3], cols = [(''B'', [Fin 5, NaN, Fin 7])]\<rparr>]"
  let ?R = "\<lparr>idx = [1, 2, 3, 4],
            cols = [(''A'', [Fin 10, Fin 10, Fin 10, Fin 20]), (''B'', [Fin 5, Fin 5, Fin 7, Fin 7])]\<rparr>"
  let ?M = "[(''A'', [NaN, Fin 10, NaN, Fin 20]), (''B'', [Fin 5, NaN, Fin 7, NaN])]"
  have ne: "?P \<noteq> []" and wf: "\<forall>f\<in>set ?P. wf_frame f" and di: "\<forall>f\<in>set ?P. distinct (idx f)"
    by (simp_all add: wf_frame_def)
  have D: "[1, 2, 3, 4] = sorted_list_of_set (\<Union>f\<in>set ?P. set (idx f))" by code_simp
  have M: "?M = concat (map (\<lambda>f. map (\<lambda>(n, c). (n, reindex_col [1, 2, 3, 4] (idx f) c)) (cols f)) ?P)"
    by code_simp
  have K: "[0, 1, 2, 3] =
      filter (\<lambda>j. list_all (\<lambda>(n, m). \<not> isna (filled m ! j)) ?M) [0..<length [1, 2, 3, 4 :: int]]"
    by code_simp
  have R: "?R = \<lparr>idx = map (\<lambda>j. [1, 2, 3, 4] ! j) [0, 1, 2, 3],
        cols = map (\<lambda>(n, m). (n, map (\<lambda>j. filled m ! j) [0, 1, 2, 3])) ?M\<rparr>"
    by code_simp
  have 1: "align stable_argsort ?P = Inr ?R \<and> complete ?R"
    using align_complete[OF is_argsort_stable ne wf D M K R] di by blast
  let ?P2 = "[\<lparr>idx = [2, 4], cols = [(''A'', [Fin 10, Fin 20])]\<rparr>,
              \<lparr>idx = [3], cols = [(''C'', [NaN])]\<rparr>]"
  let ?M2 = "[(''A'', [Fin 10, NaN, Fin 20]), (''C'', [NaN, NaN, NaN])]"
  have ne2: "?P2 \<noteq> []" and wf2: "\<forall>f\<in>set ?P2. wf_frame f" and di2: "\<forall>f\<in>set ?P2. distinct (idx f)"
    by (simp_all add: wf_frame_def)
  have D2: "[2, 3, 4] = sorted_list_of_set (\<Union>f\<in>set ?P2. set (idx f))" by code_simp
  have M2: "?M2 = concat (map (\<lambda>f. map (\<lambda>(n, c). (n, reindex_col [2, 3, 4] (idx f) c)) (cols f)) ?P2)"
    by code_simp
  have K2: "[] = filter (\<lambda>j. list_all (\<lambda>(n, m). \<not> isna (filled m ! j)) ?M2) [0..<length [2, 3, 4 :: int]]"
    by code_simp
  have R2: "\<lparr>idx = [], cols = [(''A'', []), (''C'', [])]\<rparr>
      = \<lparr>idx = map (\<lambda>j. [2, 3, 4] ! j) [],
         cols = map (\<lambda>(n, m). (n, map (\<lambda>j. filled m ! j) [])) ?M2\<rparr>"
    by code_simp
  have 2: "align stable_argsort ?P2 = Inr \<lparr>idx = [], cols = [(''A'', []), (''C'', [])]\<rparr>"
    using align_complete[OF is_argsort_stable ne2 wf2 D2 M2 K2 R2] di2 by blast
  let ?Q = "[\<lparr>idx = [1, 1, 2], cols = [(''A'', [Fin 1, Fin 2, NaN])]\<rparr>,
             \<lparr>idx = [1, 2], cols = [(''B'', [Fin 5, Fin 7])]\<rparr>]"
  let ?m = "\<lparr>idx = [1, 1, 2], cols = [(''A'', [Fin 1, Fin 2, NaN]), (''B'', [Fin 5, Fin 5, Fin 7])]\<rparr>"
  have neq: "?Q \<noteq> []" and wfq: "\<forall>f\<in>set ?Q. wf_frame f" by (simp_all add: wf_frame_def)
  have c: "concat_axis1 ?Q = Inr ?m" by code_simp
  have r: "dropna_any (bfill (ffill (drop_duplicated (sort_index stable_argsort ?m))))
      = \<lparr>idx = [1, 2], cols = [(''A'', [Fin 1, Fin 1]), (''B'', [Fin 5, Fin 7])]\<rparr>" by code_simp
  have 3: "align stable_argsort ?Q
      = Inr \<lparr>idx = [1, 2], cols = [(''A'', [Fin 1, Fin 1]), (''B'', [Fin 5, Fin 7])]\<rparr>"
    using align_complete[OF is_argsort_stable neq wfq refl refl refl refl] c unfolding r[symmetric]
    by blast
  from 1 2 3 show ?thesis by blast
qed

lemma warnings_fst:
  "map (\<lambda>(b, s). warning b) (filter (\<lambda>(b, s). \<not> usable raw b) nm)
     = map warning (filter (\<lambda>b. \<not> usable raw b) (map fst nm))"
  by (induction nm) auto

text \<open>
  C9. When no ticker of \<open>name_map\<close> has a usable frame (present, not None, not empty),
  \<open>main\<close> raises RuntimeError "No data available for any ticker.". When some ticker
  has one, the frames of the usable tickers, in the order of \<open>name_map\<close>, are aligned,
  and that error is not raised. In both cases one warning line is written for every ticker
  that is not usable.
\<close>

theorem main_align_partial_failure:
  "(\<not> list_ex (usable raw) (map fst name_map) \<longrightarrow>
      snd (main_align argsort raw) = Inl (RuntimeError ''No data available for any ticker.''))
   \<and> (list_ex (usable raw) (map fst name_map) \<longrightarrow>
      snd (main_align argsort raw) =
        align argsort (map (\<lambda>(b, s). value_column (the (the (raw b))) s)
                 (filter (\<lambda>(b, s). usable raw b) name_map))
      \<and> snd (main_align argsort raw) \<noteq> Inl (RuntimeError ''No data available for any ticker.''))
   \<and> fst (main_align argsort raw) = map warning (filter (\<lambda>b. \<not> usable raw b) (map fst name_map))"
proof -
  let ?us = "filter (\<lambda>(b, s). usable raw b) name_map"
  have f: "(?us = []) = (\<not> list_ex (usable raw) (map fst name_map))"
    by (auto simp: filter_empty_conv list_ex_iff)
  have w: "map (\<lambda>(b, s). warning b) (filter (\<lambda>(b, s). \<not> usable raw b) name_map)
      = map warning (filter (\<lambda>b. \<not> usable raw b) (map fst name_map))"
    by (rule warnings_fst)
  show ?thesis
    unfolding main_align_def build_panel_eq
    using f w align_not_runtime by (simp add: Let_def)
qed

theorem main_align_partial_failure_witness:
  "snd (main_align stable_argsort (\<lambda>t. None)) = Inl (RuntimeError ''No data available for any ticker.'')
   \<and> snd (main_align stable_argsort ((\<lambda>t. None)(''SPX Index'' :=
          Some (Some \<lparr>idx = [1, 2], cols = [(''PX_LAST'', [Fin 1, Fin 2])]\<rparr>),
          ''MXWO Index'' := Some (Some \<lparr>idx = [], cols = [(''PX_LAST'', [])]\<rparr>))))
       = align stable_argsort [\<lparr>idx = [1, 2], cols = [(''SPX'', [Fin 1, Fin 2])]\<rparr>]
   \<and> fst (main_align stable_argsort ((\<lambda>t. None)(''SPX Index'' :=
          Some (Some \<lparr>idx = [1, 2], cols = [(''PX_LAST'', [Fin 1, Fin 2])]\<rparr>),
          ''MXWO Index'' := Some (Some \<lparr>idx = [], cols = [(''PX_LAST'', [])]\<rparr>))))
       = [warning ''GSOX Index'', warning ''RGUSTSC Index'', warning ''MXWO Index'']"
  using main_align_partial_failure[of "\<lambda>t. None" stable_argsort]
    main_align_partial_failure[of "(\<lambda>t. None)(''SPX Index'' :=
          Some (Some \<lparr>idx = [1, 2], cols = [(''PX_LAST'', [Fin 1, Fin 2])]\<rparr>),
          ''MXWO Index'' := Some (Some \<lparr>idx = [], cols = [(''PX_LAST'', [])]\<rparr>))" stable_argsort]
  by (simp add: usable_def name_map_def TICKERS_def empty_def value_column_def
      USE_TOTAL_RETURN_def base_field_def)

section \<open>Rebased levels\<close>

lemma cols_map_cols_nth:
  "j < length (cols f) \<Longrightarrow> cols f ! j = (n, s) \<Longrightarrow> cols (map_cols g f) ! j = (n, g s)"
  by (simp add: map_cols_def)

text \<open>
  C8, amended. For a column of the panel whose first value is finite and not zero, rebasing
  divides every value by that first value, which is the first value that is not missing, and
  multiplies by 100; the first rebased value is exactly 100.
\<close>

theorem rebase_first_value:
  assumes "j < length (cols data)" and "cols data ! j = (n, Fin v # rest)" and "v \<noteq> 0"
  shows "idx (levels_rebased data) = idx data
    \<and> first_non_nan (Fin v # rest) = Fin v
    \<and> cols (levels_rebased data) ! j =
        (n, map (\<lambda>x. fmul (fdiv x (first_non_nan (Fin v # rest))) (Fin 100)) (Fin v # rest))
    \<and> hd (snd (cols (levels_rebased data) ! j)) = Fin 100"
  using assms cols_map_cols_nth[OF assms(1,2), of rebase_col]
  by (simp add: levels_rebased_def rebase_col_def map_cols_def)

theorem rebase_first_value_witness:
  "cols (levels_rebased \<lparr>idx = [1, 2], cols = [(''SPX'', [Fin 50, Fin 55])]\<rparr>) ! 0
     = (''SPX'', [Fin 100, Fin 110])
   \<and> hd (snd (cols (levels_rebased \<lparr>idx = [1, 2], cols = [(''SPX'', [Fin 50, Fin 55])]\<rparr>) ! 0)) = Fin 100"
  using rebase_first_value[of 0 "\<lparr>idx = [1, 2], cols = [(''SPX'', [Fin 50, Fin 55])]\<rparr>" "''SPX'' " 50 "[Fin 55]"]
  by simp

text \<open>A complete column that starts with 0 or with an infinity is rebased to a column that
  starts with NaN: \<open>0 / 0\<close> and \<open>inf / inf\<close>.\<close>

theorem rebase_first_value_counterexample:
  "hd (snd (cols (levels_rebased \<lparr>idx = [1, 2], cols = [(''SPX'', [Fin 0, Fin 55])]\<rparr>) ! 0)) = NaN
   \<and> hd (snd (cols (levels_rebased \<lparr>idx = [1, 2], cols = [(''SPX'', [PInf, Fin 55])]\<rparr>) ! 0)) = NaN
   \<and> complete \<lparr>idx = [1, 2], cols = [(''SPX'', [Fin 0, Fin 55])]\<rparr>
   \<and> complete \<lparr>idx = [1, 2], cols = [(''SPX'', [PInf, Fin 55])]\<rparr>"
  by (simp add: levels_rebased_def rebase_col_def map_cols_def complete_def)

section \<open>Drawdown\<close>

lemma peak_Cons: "peak (l # ls) (Suc t) = max l (peak ls t)"
  by (induction t) auto

lemma cummax_from_Fin:
  "t < length ls \<Longrightarrow> cummax_from (Fin a) (map Fin ls) ! t = Fin (max a (peak ls t))"
proof (induction ls arbitrary: a t)
  case Nil
  then show ?case by simp
next
  case (Cons l ls)
  show ?case
  proof (cases t)
    case 0
    then show ?thesis by (auto simp: Let_def max_def)
  next
    case (Suc k)
    then have k: "k < length ls" using Cons.prems by simp
    have "cummax_from (Fin a) (map Fin (l # ls)) ! t = cummax_from (Fin (max a l)) (map Fin ls) ! k"
      using Suc by (auto simp: Let_def max_def)
    also have "\<dots> = Fin (max (max a l) (peak ls k))" by (rule Cons.IH[OF k])
    also have "\<dots> = Fin (max a (peak (l # ls) t))" by (simp add: Suc peak_Cons max.assoc del: peak.simps)
    finally show ?thesis .
  qed
qed

lemma cummax_peak: "t < length ls \<Longrightarrow> cummax (map Fin ls) ! t = Fin (peak ls t)"
proof (cases ls)
  case Nil
  assume "t < length ls"
  then show ?thesis using Nil by simp
next
  case (Cons l rest)
  assume t: "t < length ls"
  show ?thesis
  proof (cases t)
    case 0
    then show ?thesis using Cons by (simp add: cummax_def Let_def)
  next
    case (Suc k)
    then have "k < length rest" using t Cons by simp
    then show ?thesis using Cons Suc
      by (simp add: cummax_def Let_def cummax_from_Fin peak_Cons del: peak.simps)
  qed
qed

lemma length_cummax_from: "length (cummax_from m cs) = length cs"
  by (induction cs arbitrary: m) (auto simp: Let_def)

lemma le_peak: "ls ! t \<le> peak ls t"
  by (cases t) auto

text \<open>
  C7, amended. For a series of finite levels, \<open>cummax\<close> is the running peak of the
  specification, and the drawdown has one entry per date. At every date where the running
  peak is positive, the drawdown is \<open>level / peak - 1\<close>, it is at most 0, and it is 0
  when the level equals the running peak.
\<close>

theorem drawdown_nonpositive:
  assumes t: "t < length ls" and pos: "0 < peak ls t"
  shows "length (drawdown (map Fin ls)) = length ls
    \<and> cummax (map Fin ls) ! t = Fin (peak ls t)
    \<and> drawdown (map Fin ls) ! t = Fin (ls ! t / peak ls t - 1)
    \<and> ls ! t / peak ls t - 1 \<le> 0
    \<and> (ls ! t = peak ls t \<longrightarrow> drawdown (map Fin ls) ! t = Fin 0)"
proof -
  have len: "length (cummax (map Fin ls)) = length ls"
    by (simp add: cummax_def length_cummax_from)
  have 1: "length (drawdown (map Fin ls)) = length ls"
    by (simp add: drawdown_def series_op_def Let_def len)
  have 2: "cummax (map Fin ls) ! t = Fin (peak ls t)" by (rule cummax_peak[OF t])
  have 3: "drawdown (map Fin ls) ! t = Fin (ls ! t / peak ls t - 1)"
    using t pos len by (simp add: drawdown_def series_op_def Let_def 2 fsub_def)
  have "ls ! t / peak ls t \<le> 1" using le_peak[of ls t] pos by simp
  then have 4: "ls ! t / peak ls t - 1 \<le> 0" by simp
  have 5: "ls ! t = peak ls t \<longrightarrow> drawdown (map Fin ls) ! t = Fin 0"
    using 3 pos by simp
  from 1 2 3 4 5 show ?thesis by blast
qed

theorem drawdown_nonpositive_witness:
  "drawdown (map Fin [100, 110, 99]) ! 2 = Fin (99 / 110 - 1)
   \<and> cummax (map Fin [100, 110, 99]) ! 2 = Fin 110
   \<and> drawdown (map Fin [100, 110, 99]) ! 1 = Fin 0"
  using drawdown_nonpositive[of 2 "[100, 110, 99]"] drawdown_nonpositive[of 1 "[100, 110, 99]"]
  by (simp add: eval_nat_numeral)

text \<open>With a negative running peak the drawdown is positive; a level 0 at the peak and a
  missing level give a missing drawdown.\<close>

theorem drawdown_nonpositive_counterexample:
  "drawdown [Fin (- 1), Fin (- 2)] ! 1 = Fin 1
   \<and> drawdown [Fin 0] ! 0 = NaN
   \<and> drawdown [Fin 1, NaN] ! 1 = NaN"
  by (simp add: drawdown_def cummax_def series_op_def Let_def fsub_def)

section \<open>Rolling windows\<close>

lemma length_rolling [simp]: "length (rolling agg W xs) = length xs"
  by (simp add: rolling_def)

lemma rolling_nth: "t < length xs \<Longrightarrow> rolling agg W xs ! t = agg (window W xs t)"
  by (simp add: rolling_def)

lemma window_map: "window W (map f xs) t = map f (window W xs t)"
  by (simp add: window_def drop_map take_map)

lemma window_series_op:
  "window W (series_op f xs ys) t = series_op f (window W xs t) (window W ys t)"
  by (simp add: window_def series_op_def drop_map take_map take_zip drop_zip)

lemma length_window: "t < length xs \<Longrightarrow> length (window W xs t) = min W (t + 1)"
  by (auto simp: window_def)

lemma window_nth:
  "t < length xs \<Longrightarrow> window W xs t = map (\<lambda>i. xs ! i) [t + 1 - W ..< t + 1]"
  by (rule nth_equalityI) (auto simp: window_def nth_map_upt simp del: upt_Suc)

lemma length_obs_le: "length (obs w) \<le> length w"
  by (induction w rule: obs.induct) auto

lemma obs_finite: "\<forall>c\<in>set w. isfinite c \<Longrightarrow> obs w = map fin_value w"
  by (induction w rule: obs.induct) auto

lemma obs_not_finite: "\<exists>c\<in>set w. \<not> isfinite c \<Longrightarrow> length (obs w) < length w"
proof (induction w rule: obs.induct)
  case 1
  then show ?case by simp
next
  case (2 r cs)
  then show ?case by simp
qed (simp_all add: le_imp_less_Suc length_obs_le)

lemma isfinite_prep_add [simp]: "isfinite (prep_values (fadd (Fin a) c)) = isfinite c"
  by (cases c) auto

lemma fin_value_prep_add:
  "isfinite c \<Longrightarrow> fin_value (prep_values (fadd (Fin a) c)) = a + fin_value c"
  by (cases c) auto

lemma rolling_period_return_nth:
  assumes W: "0 < W" and t: "t < length rs"
  shows "rolling_period_return rs W ! t =
     (if W \<le> t + 1 \<and> (\<forall>i\<in>{t + 1 - W..t}. isfinite (rs ! i))
      then Fin ((\<Prod>i = t + 1 - W..t. 1 + fin_value (rs ! i)) - 1) else NaN)"
proof -
  let ?w = "window W rs t"
  let ?w' = "map prep_values (map (fadd (Fin 1)) ?w)"
  have w: "?w = map (\<lambda>i. rs ! i) [t + 1 - W ..< t + 1]" by (rule window_nth[OF t])
  have s: "set [t + 1 - W ..< t + 1] = {t + 1 - W..t}" by auto
  have fin: "(\<forall>c\<in>set ?w'. isfinite c) = (\<forall>i\<in>{t + 1 - W..t}. isfinite (rs ! i))"
    unfolding w using s by (simp del: upt_Suc)
  have lw: "length ?w' = min W (t + 1)" using length_window[OF t] by simp
  have r: "rolling_period_return rs W ! t = fsub (roll_apply prod_list W ?w') (Fin 1)"
    using t by (simp add: rolling_period_return_def rolling_nth window_map)
  show ?thesis
  proof (cases "W \<le> t + 1 \<and> (\<forall>i\<in>{t + 1 - W..t}. isfinite (rs ! i))")
    case True
    then have af: "\<forall>c\<in>set ?w'. isfinite c" using fin by simp
    have o: "obs ?w' = map fin_value ?w'" by (rule obs_finite[OF af])
    have "map fin_value ?w' = map (\<lambda>i. 1 + fin_value (rs ! i)) [t + 1 - W ..< t + 1]"
      unfolding w using True s by (simp add: fin_value_prep_add del: upt_Suc)
    then have "prod_list (obs ?w') = prod_list (map (\<lambda>i. 1 + fin_value (rs ! i)) [t + 1 - W ..< t + 1])"
      unfolding o by (rule arg_cong)
    also have "\<dots> = prod (\<lambda>i. 1 + fin_value (rs ! i)) (set [t + 1 - W ..< t + 1])"
      by (rule prod.distinct_set_conv_list[symmetric]) (rule distinct_upt)
    also have "\<dots> = (\<Prod>i = t + 1 - W..t. 1 + fin_value (rs ! i))" by (simp only: s)
    finally have p: "prod_list (obs ?w') = (\<Prod>i = t + 1 - W..t. 1 + fin_value (rs ! i))" .
    have "length (obs ?w') = W" unfolding o using lw True by simp
    then have "roll_apply prod_list W ?w' = Fin (\<Prod>i = t + 1 - W..t. 1 + fin_value (rs ! i))"
      using p by (simp add: roll_apply_def Let_def)
    then show ?thesis using r True by (simp add: fsub_def)
  next
    case False
    have "length (obs ?w') < W"
    proof (cases "W \<le> t + 1")
      case True
      then have "\<exists>c\<in>set ?w'. \<not> isfinite c" using False fin by blast
      then have "length (obs ?w') < length ?w'" by (rule obs_not_finite)
      then show ?thesis using lw by simp
    next
      case False
      then show ?thesis using length_obs_le[of ?w'] lw by simp
    qed
    then have "roll_apply prod_list W ?w' = NaN" by (simp add: roll_apply_def Let_def)
    then show ?thesis using r False by (simp add: fsub_def)
  qed
qed

lemma length_rolling_period_return [simp]:
  "length (rolling_period_return rs W) = length rs"
  by (simp add: rolling_period_return_def)

text \<open>
  C2. For a window size \<open>W > 0\<close> the rolling period return has one entry per date. The
  entry at date \<open>t\<close> is the product of \<open>1 + r\<close> over the \<open>W\<close> returns ending at \<open>t\<close>,
  minus 1, when these \<open>W\<close> returns exist and are finite numbers, and is missing otherwise.
  So the first \<open>W - 1\<close> entries are missing, and the entry \<open>W\<close> is the first defined one
  when the first \<open>W\<close> returns are finite.
\<close>

theorem rolling_period_return_window:
  assumes "0 < W" and "t < length rs"
  shows "length (rolling_period_return rs W) = length rs
    \<and> rolling_period_return rs W ! t =
        (if W \<le> t + 1 \<and> (\<forall>i\<in>{t + 1 - W..t}. isfinite (rs ! i))
         then Fin ((\<Prod>i = t + 1 - W..t. 1 + fin_value (rs ! i)) - 1) else NaN)
    \<and> (t + 1 < W \<longrightarrow> rolling_period_return rs W ! t = NaN)
    \<and> (t + 1 = W \<and> (\<forall>i\<in>{0..t}. isfinite (rs ! i)) \<longrightarrow>
          rolling_period_return rs W ! t = Fin ((\<Prod>i = 0..t. 1 + fin_value (rs ! i)) - 1))"
  using rolling_period_return_nth[OF assms] by auto

theorem rolling_period_return_window_witness:
  "rolling_period_return [Fin (1/10), Fin (-1/10), Fin (1/2)] 2 ! 0 = NaN
   \<and> rolling_period_return [Fin (1/10), Fin (-1/10), Fin (1/2)] 2 ! 1 = Fin (- 1 / 100)
   \<and> rolling_period_return [Fin (1/10), Fin (-1/10), Fin (1/2)] 2 ! 2 = Fin (7 / 20)"
  using rolling_period_return_window[of 2 0 "[Fin (1/10), Fin (-1/10), Fin (1/2)]"]
    rolling_period_return_window[of 2 1 "[Fin (1/10), Fin (-1/10), Fin (1/2)]"]
    rolling_period_return_window[of 2 2 "[Fin (1/10), Fin (-1/10), Fin (1/2)]"]
  by (simp add: eval_nat_numeral atLeastAtMostSuc_conv)

section \<open>Daily returns\<close>

lemma fmul_NaN [simp]: "fmul NaN x = NaN" "fmul x NaN = NaN"
  by (cases x; simp)+

lemma fadd_NaN [simp]: "fadd NaN x = NaN" "fadd x NaN = NaN"
  by (cases x; simp)+

lemma fsub_NaN [simp]: "fsub NaN x = NaN" "fsub x NaN = NaN"
  by (simp_all add: fsub_def)

lemma fdiv_NaN [simp]: "fdiv NaN x = NaN" "fdiv x NaN = NaN"
  by (cases x; simp)+

lemma series_op_nth:
  "t < length xs \<Longrightarrow> t < length ys \<Longrightarrow> series_op f xs ys ! t = f (xs ! t) (ys ! t)"
  by (simp add: series_op_def)

lemma length_series_op [simp]: "length (series_op f xs ys) = min (length xs) (length ys)"
  by (simp add: series_op_def)

lemma length_pct_change_col [simp]: "length (pct_change_col s) = length s"
  by (simp add: pct_change_col_def shift_def)

lemma pct_change_col_0:
  assumes "s \<noteq> []"
  shows "pct_change_col s ! 0 = NaN"
proof -
  obtain c cs where s: "s = c # cs" using assms by (cases s) auto
  show ?thesis unfolding s pct_change_col_def shift_def by (simp add: series_op_nth)
qed

lemma pct_change_col_nth:
  assumes fin: "\<forall>c\<in>set s. isfinite c" and t: "0 < t" "t < length s"
    and p: "s ! (t - 1) = Fin p" and v: "s ! t = Fin v"
  shows "pct_change_col s ! t =
    (if p \<noteq> 0 then Fin ((v - p) / p)
     else if v = 0 then NaN else if 0 < v then PInf else MInf)"
proof -
  obtain k where k: "t = Suc k" using t(1) by (cases t) auto
  have sh: "shift s ! t = s ! (t - 1)" using t by (simp add: shift_def k)
  have "pct_change_col s ! t = fsub (fdiv (s ! t) (shift s ! t)) (Fin 1)"
    using t by (simp add: pct_change_col_def series_op_nth shift_def)
  then show ?thesis unfolding sh p v
    by (simp add: fsub_def diff_divide_distrib)
qed


lemma select_rows_cong:
  "(\<And>t. t < n \<Longrightarrow> P t = Q t) \<Longrightarrow>
   select_rows (map P [0..<n]) f = select_rows (map Q [0..<n]) f"
  by (rule arg_cong[where f = "\<lambda>m. select_rows m f"]) simp

lemma pct_change_col_isna:
  assumes fin: "\<forall>c\<in>set s. isfinite c" and t: "0 < t" "t < length s"
  shows "isna (pct_change_col s ! t) = (s ! (t - 1) = Fin 0 \<and> s ! t = Fin 0)"
proof -
  have "isfinite (s ! (t - 1))" "isfinite (s ! t)" using fin t by auto
  then obtain p v where pv: "s ! (t - 1) = Fin p" "s ! t = Fin v"
    by (cases "s ! (t - 1)"; cases "s ! t") auto
  show ?thesis using pct_change_col_nth[OF fin t pv] pv by auto
qed

lemma row_any_na_pct_change:
  "row_any_na (pct_change data) t = (\<exists>(n, s)\<in>set (cols data). isna (pct_change_col s ! t))"
  by (force simp: row_any_na_def pct_change_def map_cols_def list_ex_iff)

lemma rets_rows:
  assumes wf: "wf_frame data" and ne: "cols data \<noteq> []"
    and fin: "\<forall>(n, s)\<in>set (cols data). \<forall>c\<in>set s. isfinite c"
  shows "rets data =
      select_rows (map (\<lambda>t. 0 < t \<and> \<not> list_ex (\<lambda>(n, s). s ! (t - 1) = Fin 0 \<and> s ! t = Fin 0) (cols data))
                     [0..<length (idx data)]) (pct_change data)"
proof -
  have ip: "idx (pct_change data) = idx data" by (simp add: pct_change_def map_cols_def)
  have "(\<not> row_any_na (pct_change data) t) =
        (0 < t \<and> \<not> list_ex (\<lambda>(n, s). s ! (t - 1) = Fin 0 \<and> s ! t = Fin 0) (cols data))"
    if t: "t < length (idx data)" for t
  proof (cases "t = 0")
    case True
    obtain n s where ns: "(n, s) \<in> set (cols data)" using ne by (cases "cols data") auto
    then have "length s = length (idx data)" using wf by (auto simp: wf_frame_def list_all_iff)
    then have "s \<noteq> []" using t by auto
    then have "isna (pct_change_col s ! 0)" by (simp add: pct_change_col_0)
    then have "row_any_na (pct_change data) 0"
      unfolding row_any_na_pct_change using ns by blast
    then show ?thesis using True by simp
  next
    case False
    have "isna (pct_change_col s ! t) = (s ! (t - 1) = Fin 0 \<and> s ! t = Fin 0)"
      if ns: "(n, s) \<in> set (cols data)" for n s
    proof -
      have "length s = length (idx data)" using wf ns by (auto simp: wf_frame_def list_all_iff)
      moreover have "\<forall>c\<in>set s. isfinite c" using fin ns by auto
      ultimately show ?thesis using pct_change_col_isna[of s t] False t by simp
    qed
    then have "row_any_na (pct_change data) t =
        list_ex (\<lambda>(n, s). s ! (t - 1) = Fin 0 \<and> s ! t = Fin 0) (cols data)"
      unfolding row_any_na_pct_change list_ex_iff by blast
    then show ?thesis using False by simp
  qed
  then show ?thesis
    unfolding rets_def dropna_any_def ip by (intro select_rows_cong) auto
qed

lemma rolling_period_return_not_finite:
  assumes "0 < W" and "u < length r" and "i \<in> {u + 1 - W..u}" and "\<not> isfinite (r ! i)"
  shows "rolling_period_return r W ! u = NaN"
  using rolling_period_return_nth[OF assms(1,2)] assms(3,4) by auto

text \<open>
  C5, amended. For a well-formed panel of finite cells, the cell of \<open>pct_change\<close> at
  the first date is missing, and at a later date \<open>t\<close> with prior value \<open>p\<close> and
  value \<open>v\<close> it is \<open>(v - p) / p\<close> when \<open>p\<close> is not 0; when \<open>p\<close> is 0 it is
  +inf or -inf by the sign of \<open>v\<close>, and NaN when \<open>v\<close> is 0 too. The returns are the
  rows of \<open>pct_change\<close> but the first one and the rows where some column has 0 after
  0: a row with an infinite return stays. Nothing raises, and a rolling period return whose
  window holds a cell that is not finite is missing.
\<close>

theorem rets_pct_change:
  assumes wf: "wf_frame data"
    and fin: "\<forall>(n, s)\<in>set (cols data). \<forall>c\<in>set s. isfinite c"
    and j: "j < length (cols data)" "cols data ! j = (n, s)"
    and t: "0 < t" "t < length (idx data)"
    and p: "s ! (t - 1) = Fin p" and v: "s ! t = Fin v"
  shows "cols (pct_change data) ! j = (n, pct_change_col s)
    \<and> pct_change_col s ! 0 = NaN
    \<and> pct_change_col s ! t =
        (if p \<noteq> 0 then Fin ((v - p) / p)
         else if v = 0 then NaN else if 0 < v then PInf else MInf)
    \<and> rets data =
        select_rows (map (\<lambda>t. 0 < t \<and> \<not> list_ex (\<lambda>(n, s). s ! (t - 1) = Fin 0 \<and> s ! t = Fin 0) (cols data))
                       [0..<length (idx data)]) (pct_change data)
    \<and> (\<forall>r W u. 0 < W \<and> u < length r \<and> (\<exists>i\<in>{u + 1 - W..u}. \<not> isfinite (r ! i)) \<longrightarrow>
          rolling_period_return r W ! u = NaN)"
proof -
  have ns: "(n, s) \<in> set (cols data)" using j by (metis nth_mem)
  have ls: "length s = length (idx data)" using wf ns by (auto simp: wf_frame_def list_all_iff)
  have fs: "\<forall>c\<in>set s. isfinite c" using fin ns by auto
  have 1: "cols (pct_change data) ! j = (n, pct_change_col s)"
    unfolding pct_change_def by (rule cols_map_cols_nth[OF j])
  have 2: "pct_change_col s ! 0 = NaN" using ls t by (intro pct_change_col_0) auto
  have 3: "pct_change_col s ! t =
        (if p \<noteq> 0 then Fin ((v - p) / p)
         else if v = 0 then NaN else if 0 < v then PInf else MInf)"
    using t ls by (intro pct_change_col_nth[OF fs _ _ p v]) auto
  have ne: "cols data \<noteq> []" using j by auto
  note 4 = rets_rows[OF wf ne fin]
  have 5: "\<forall>r W u. 0 < W \<and> u < length r \<and> (\<exists>i\<in>{u + 1 - W..u}. \<not> isfinite (r ! i)) \<longrightarrow>
          rolling_period_return r W ! u = NaN"
    using rolling_period_return_not_finite by blast
  from 1 2 3 4 5 show ?thesis by blast
qed

theorem rets_pct_change_witness:
  "pct_change_col [Fin 0, Fin 5, Fin 10] ! 1 = PInf
   \<and> pct_change_col [Fin 0, Fin 5, Fin 10] ! 0 = NaN
   \<and> pct_change_col [Fin 1, Fin 2, Fin 3] ! 1 = Fin 1
   \<and> rets \<lparr>idx = [1, 2, 3], cols = [(''A'', [Fin 0, Fin 5, Fin 10]), (''B'', [Fin 1, Fin 2, Fin 3])]\<rparr>
       = \<lparr>idx = [2, 3], cols = [(''A'', [PInf, Fin 1]), (''B'', [Fin 1, Fin (1 / 2)])]\<rparr>
   \<and> rolling_period_return [PInf, Fin 1] 2 ! 1 = NaN"
proof -
  let ?d = "\<lparr>idx = [1, 2, 3], cols = [(''A'', [Fin 0, Fin 5, Fin 10]), (''B'', [Fin 1, Fin 2, Fin 3])]\<rparr>"
  have wf: "wf_frame ?d" by (simp add: wf_frame_def)
  have fin: "\<forall>(n, s)\<in>set (cols ?d). \<forall>c\<in>set s. isfinite c" by simp
  have a: "pct_change_col [Fin 0, Fin 5, Fin 10] ! 1 = PInf
     \<and> pct_change_col [Fin 0, Fin 5, Fin 10] ! 0 = NaN"
    using rets_pct_change[OF wf fin, of 0 "''A''" "[Fin 0, Fin 5, Fin 10]" 1 0 5] by simp
  have b0: "pct_change_col [Fin 1, Fin 2, Fin 3] ! 1 = Fin 1
     \<and> (\<forall>r W u. 0 < W \<and> u < length r \<and> (\<exists>i\<in>{u + 1 - W..u}. \<not> isfinite (r ! i)) \<longrightarrow>
          rolling_period_return r W ! u = NaN)"
    using rets_pct_change[OF wf fin, of 1 "''B''" "[Fin 1, Fin 2, Fin 3]" 1 1 2] by simp
  have "\<exists>i\<in>{1 + 1 - 2..1::nat}. \<not> isfinite ([PInf, Fin 1] ! i)"
    by (rule bexI[of _ 0]) simp_all
  then have "rolling_period_return [PInf, Fin 1] 2 ! 1 = NaN"
    using b0 by (metis (no_types, lifting) length_Cons list.size(3) One_nat_def lessI zero_less_numeral)
  then have b: "pct_change_col [Fin 1, Fin 2, Fin 3] ! 1 = Fin 1
     \<and> rolling_period_return [PInf, Fin 1] 2 ! 1 = NaN"
    using b0 by blast
  have c: "rets ?d = \<lparr>idx = [2, 3], cols = [(''A'', [PInf, Fin 1]), (''B'', [Fin 1, Fin (1 / 2)])]\<rparr>"
    by code_simp
  from a b c show ?thesis by blast
qed

text \<open>The return after a prior value 0 is +inf, which is not a missing value, and its row
  is kept.\<close>

theorem rets_pct_change_counterexample:
  "rets \<lparr>idx = [1, 2], cols = [(''A'', [Fin 0, Fin 5])]\<rparr> = \<lparr>idx = [2], cols = [(''A'', [PInf])]\<rparr>
   \<and> \<not> isna PInf
   \<and> complete \<lparr>idx = [1, 2], cols = [(''A'', [Fin 0, Fin 5])]\<rparr>"
  by (simp add: complete_def) code_simp

section \<open>Excess returns\<close>

lemma rolling_period_return_cell:
  "t < length rs \<Longrightarrow> rolling_period_return rs W ! t = NaN \<or> (\<exists>x. rolling_period_return rs W ! t = Fin x)"
  by (simp add: rolling_period_return_def rolling_nth roll_apply_def Let_def fsub_def)

lemma fsub_isna:
  assumes "a = NaN \<or> (\<exists>x. a = Fin x)" and "b = NaN \<or> (\<exists>x. b = Fin x)"
  shows "isna (fsub a b) = (isna a \<or> isna b)"
  using assms by (auto simp: fsub_def)

lemma dict_two: "k1 \<noteq> k2 \<Longrightarrow> dict [(k1, v1), (k2, v2)] = [(k1, v1), (k2, v2)]"
  by (simp add: dict_def)

lemma getitem_length:
  "wf_frame r \<Longrightarrow> getitem r name = Inr s \<Longrightarrow> length s = length (idx r)"
  by (auto simp: getitem_def wf_frame_def list_all_iff split: option.splits dest: map_of_SomeD)

lemma dropna_all_two:
  assumes "length a = length ix" and "length b = length ix"
  shows "dropna_all \<lparr>idx = ix, cols = [(na, a), (nb, b)]\<rparr> =
     (let keep = filter (\<lambda>t. \<not> (isna (a ! t) \<and> isna (b ! t))) [0..<length ix]
      in \<lparr>idx = map (\<lambda>t. ix ! t) keep,
          cols = [(na, map (\<lambda>t. a ! t) keep), (nb, map (\<lambda>t. b ! t) keep)]\<rparr>)"
  using assms
  by (simp add: dropna_all_def select_rows_def row_all_na_def Let_def select_map_upt)

text \<open>
  C4. When the asset and the two distinct benchmarks are columns of the returns, the excess
  table of \<open>compute_pairwise_metrics\<close> has one column per benchmark; a cell is the
  asset's rolling period return minus the benchmark's at the same date, and is missing
  exactly when one of the two is missing; the table keeps exactly the dates where not both
  cells are missing.
\<close>

theorem excess_table:
  assumes wf: "wf_frame r"
    and g: "getitem r asset = Inr s_asset" "getitem r bench_a = Inr s_a"
           "getitem r bench_b = Inr s_b"
    and ne: "bench_a \<noteq> bench_b"
    and ra: "r_asset = rolling_period_return s_asset ROLL_RET_WIN"
    and rb: "r_a = rolling_period_return s_a ROLL_RET_WIN"
            "r_b = rolling_period_return s_b ROLL_RET_WIN"
    and keep: "keep = filter (\<lambda>t. \<not> (isna (fsub (r_asset ! t) (r_a ! t)) \<and> isna (fsub (r_asset ! t) (r_b ! t))))
                        [0..<length (idx r)]"
  shows "(\<exists>corr_df beta_df. compute_pairwise_metrics lib r asset bench_a bench_b =
        Inr (\<lparr>idx = map (\<lambda>t. idx r ! t) keep,
              cols = [(asset @ ''-vs-'' @ bench_a, map (\<lambda>t. fsub (r_asset ! t) (r_a ! t)) keep),
                      (asset @ ''-vs-'' @ bench_b, map (\<lambda>t. fsub (r_asset ! t) (r_b ! t)) keep)]\<rparr>,
             corr_df, beta_df))
    \<and> (\<forall>t < length (idx r).
          isna (fsub (r_asset ! t) (r_a ! t)) = (isna (r_asset ! t) \<or> isna (r_a ! t))
        \<and> isna (fsub (r_asset ! t) (r_b ! t)) = (isna (r_asset ! t) \<or> isna (r_b ! t)))"
proof -
  let ?n = "length (idx r)"
  have len: "length s_asset = ?n" "length s_a = ?n" "length s_b = ?n"
    using wf g by (auto dest: getitem_length)
  have lr: "length r_asset = ?n" "length r_a = ?n" "length r_b = ?n"
    using len ra rb by simp_all
  let ?ea = "series_op fsub r_asset r_a"
  let ?eb = "series_op fsub r_asset r_b"
  have nth: "?ea ! t = fsub (r_asset ! t) (r_a ! t)" "?eb ! t = fsub (r_asset ! t) (r_b ! t)"
    if "t < ?n" for t using that lr by (simp_all add: series_op_def)
  have le: "length ?ea = ?n" "length ?eb = ?n" using lr by (simp_all add: series_op_def)
  have k: "keep = filter (\<lambda>t. \<not> (isna (?ea ! t) \<and> isna (?eb ! t))) [0..<?n]"
    unfolding keep by (intro filter_cong) (auto simp: nth)
  have kn: "\<forall>t\<in>set keep. t < ?n" unfolding keep by auto
  have names: "asset @ ''-vs-'' @ bench_a \<noteq> asset @ ''-vs-'' @ bench_b" using ne by simp
  have d: "dropna_all \<lparr>idx = idx r, cols = dict [(asset @ ''-vs-'' @ bench_a, ?ea), (asset @ ''-vs-'' @ bench_b, ?eb)]\<rparr>
      = \<lparr>idx = map (\<lambda>t. idx r ! t) keep,
         cols = [(asset @ ''-vs-'' @ bench_a, map (\<lambda>t. fsub (r_asset ! t) (r_a ! t)) keep),
                 (asset @ ''-vs-'' @ bench_b, map (\<lambda>t. fsub (r_asset ! t) (r_b ! t)) keep)]\<rparr>"
    unfolding dict_two[OF names] dropna_all_two[OF le] Let_def k[symmetric]
    using kn by (auto simp: nth)
  have 1: "\<exists>corr_df beta_df. compute_pairwise_metrics lib r asset bench_a bench_b =
        Inr (\<lparr>idx = map (\<lambda>t. idx r ! t) keep,
              cols = [(asset @ ''-vs-'' @ bench_a, map (\<lambda>t. fsub (r_asset ! t) (r_a ! t)) keep),
                      (asset @ ''-vs-'' @ bench_b, map (\<lambda>t. fsub (r_asset ! t) (r_b ! t)) keep)]\<rparr>,
             corr_df, beta_df)"
    unfolding compute_pairwise_metrics_def g sum.case Let_def ra[symmetric] rb[symmetric] d
    by blast
  have 2: "isna (fsub (r_asset ! t) (r_a ! t)) = (isna (r_asset ! t) \<or> isna (r_a ! t))
        \<and> isna (fsub (r_asset ! t) (r_b ! t)) = (isna (r_asset ! t) \<or> isna (r_b ! t))"
    if t: "t < ?n" for t
    using rolling_period_return_cell[of t s_asset ROLL_RET_WIN]
      rolling_period_return_cell[of t s_a ROLL_RET_WIN]
      rolling_period_return_cell[of t s_b ROLL_RET_WIN] t len
    unfolding ra rb by (intro conjI fsub_isna) auto
  from 1 2 show ?thesis by blast
qed


lemma rolling_period_return_warmup:
  "t + 1 < W \<Longrightarrow> t < length rs \<Longrightarrow> rolling_period_return rs W ! t = NaN"
  using rolling_period_return_nth[of W t rs] by simp

lemma rolling_period_return_zeros:
  assumes "0 < W" and "W \<le> t + 1" and "t < length rs"
    and "\<forall>i\<in>{t + 1 - W..t}. rs ! i = Fin 0"
  shows "rolling_period_return rs W ! t = Fin 0"
proof -
  have "(\<Prod>i = t + 1 - W..t. 1 + fin_value (rs ! i)) = 1"
    using assms(4) by (intro prod.neutral) simp
  then show ?thesis using rolling_period_return_nth[OF assms(1,3)] assms(2,4) by simp
qed

theorem excess_table_witness:
  "\<exists>corr_df beta_df.
     compute_pairwise_metrics unit_lib
       \<lparr>idx = map int [0..<64],
          cols = [(''A'', replicate 64 (Fin 0)), (''B'', replicate 63 (Fin 0) @ [NaN]),
                  (''C'', replicate 64 (Fin 0))]\<rparr> ''A'' ''B'' ''C''
     = Inr (\<lparr>idx = [62, 63],
              cols = [(''A-vs-B'', [Fin 0, NaN]), (''A-vs-C'', [Fin 0, Fin 0])]\<rparr>,
            corr_df, beta_df)"
proof -
  let ?A = "replicate 64 (Fin 0)"
  let ?B = "replicate 63 (Fin 0) @ [NaN]"
  let ?r = "\<lparr>idx = map int [0..<64], cols = [(''A'', ?A), (''B'', ?B), (''C'', ?A)]\<rparr>"
  let ?ra = "rolling_period_return ?A ROLL_RET_WIN"
  let ?rb = "rolling_period_return ?B ROLL_RET_WIN"
  let ?P = "\<lambda>t. \<not> (isna (fsub (?ra ! t) (?rb ! t)) \<and> isna (fsub (?ra ! t) (?ra ! t)))"
  have wf: "wf_frame ?r" by (simp add: wf_frame_def)
  have g: "getitem ?r ''A'' = Inr ?A" "getitem ?r ''B'' = Inr ?B" "getitem ?r ''C'' = Inr ?A"
    by (simp_all add: getitem_def)
  have ne: "''B'' \<noteq> ''C''" by simp
  have early: "?ra ! t = NaN" if "t < 62" for t
    using that by (intro rolling_period_return_warmup) (simp_all add: ROLL_RET_WIN_def)
  have a62: "?ra ! 62 = Fin 0" and a63: "?ra ! 63 = Fin 0"
    by (intro rolling_period_return_zeros; simp add: ROLL_RET_WIN_def)+
  have b62: "?rb ! 62 = Fin 0"
    by (intro rolling_period_return_zeros) (simp_all add: ROLL_RET_WIN_def nth_append)
  have "\<not> isfinite (?B ! 63)" by (simp add: nth_append)
  then have b63: "?rb ! 63 = NaN"
    using rolling_period_return_not_finite[of ROLL_RET_WIN 63 ?B 63]
    by (simp add: ROLL_RET_WIN_def)
  have u: "[0..<length (idx ?r)] = [0..<62] @ [62, 63]" by code_simp
  have "filter ?P [0..<62] = []"
    unfolding filter_empty_conv using early by (simp add: fsub_def)
  then have k: "filter ?P [0..<length (idx ?r)] = [62, 63]"
    unfolding u filter_append by (simp add: a62 a63 b62 b63 fsub_def)
  have i: "map (\<lambda>t. idx ?r ! t) [62, 63] = [62, 63]" by simp
  have a: "map (\<lambda>t. fsub (?ra ! t) (?rb ! t)) [62, 63] = [Fin 0, NaN]"
    by (simp add: a62 a63 b62 b63 fsub_def)
  have b: "map (\<lambda>t. fsub (?ra ! t) (?ra ! t)) [62, 63] = [Fin 0, Fin 0]"
    by (simp add: a62 a63 fsub_def)
  have n: "''A'' @ ''-vs-'' @ ''B'' = ''A-vs-B''" "''A'' @ ''-vs-'' @ ''C'' = ''A-vs-C''" by simp_all
  from excess_table[OF wf g ne refl refl refl refl]
  show ?thesis unfolding k i a b n by blast
qed

section \<open>Window sizes\<close>

lemma warm_up_unit_lib: "warm_up unit_lib"
  by (simp add: warm_up_def unit_lib_def)

lemma rolling_period_return_compounded:
  assumes "0 < W" and "length rs = n"
  shows "rolling_period_return rs W = map (compounded rs W) [0..<n]"
  using assms
  by (intro nth_equalityI) (simp_all add: rolling_period_return_nth compounded_def)

lemma excess_column:
  assumes "0 < W" and "length a = n" and "length b = n"
  shows "series_op fsub (rolling_period_return a W) (rolling_period_return b W)
       = map (\<lambda>t. fsub (compounded a W t) (compounded b W t)) [0..<n]"
  using assms
  by (intro nth_equalityI) (simp_all add: series_op_nth rolling_period_return_compounded)

lemma compounded_warm_up: "t + 1 < W \<Longrightarrow> compounded rs W t = NaN"
  by (simp add: compounded_def)

lemma dropna_all_two_rows:
  assumes "length a = length ix" and "length b = length ix"
    and "\<forall>t<length ix. t + 1 < W \<longrightarrow> isna (a ! t) \<and> isna (b ! t)"
  shows "\<exists>rows. (\<forall>t\<in>set rows. W \<le> t + 1 \<and> t < length ix)
           \<and> idx (dropna_all \<lparr>idx = ix, cols = [(na, a), (nb, b)]\<rparr>) = map (\<lambda>t. ix ! t) rows"
proof -
  let ?rows = "filter (\<lambda>t. \<not> (isna (a ! t) \<and> isna (b ! t))) [0..<length ix]"
  have "\<forall>t\<in>set ?rows. W \<le> t + 1 \<and> t < length ix" using assms(3) by force
  moreover have "idx (dropna_all \<lparr>idx = ix, cols = [(na, a), (nb, b)]\<rparr>) = map (\<lambda>t. ix ! t) ?rows"
    unfolding dropna_all_two[OF assms(1,2)] Let_def by simp
  ultimately show ?thesis by blast
qed

lemma filter_ge_upt: "filter (\<lambda>t. \<not> t < k) [0..<n] = [k..<n]"
proof (induction n)
  case 0
  then show ?case by simp
next
  case (Suc n)
  then show ?case by (cases "k \<le> n") (auto simp: upt_rec[of k k])
qed

lemma map_nth_from: "length xs = n \<Longrightarrow> map (\<lambda>t. xs ! t) [k..<n] = drop k xs"
  by (intro nth_equalityI) simp_all

lemma dropna_all_from:
  assumes "length a = length ix" and "length b = length ix"
    and "\<forall>t<length ix. (isna (a ! t) \<and> isna (b ! t)) = (t < k)"
  shows "dropna_all \<lparr>idx = ix, cols = [(na, a), (nb, b)]\<rparr>
       = \<lparr>idx = drop k ix, cols = [(na, drop k a), (nb, drop k b)]\<rparr>"
proof -
  have "filter (\<lambda>t. \<not> (isna (a ! t) \<and> isna (b ! t))) [0..<length ix]
      = filter (\<lambda>t. \<not> t < k) [0..<length ix]"
    using assms(3) by (intro filter_cong) simp_all
  then have f: "filter (\<lambda>t. \<not> (isna (a ! t) \<and> isna (b ! t))) [0..<length ix] = [k..<length ix]"
    by (simp only: filter_ge_upt)
  show ?thesis
    unfolding dropna_all_two[OF assms(1,2)] Let_def f
    using assms(1,2) by (simp add: map_nth_from)
qed

lemma dropna_all_warm:
  assumes "length ix = k + m" and "length u = m" and "length v = m"
    and "\<forall>t<m. \<not> (isna (u ! t) \<and> isna (v ! t))"
  shows "dropna_all \<lparr>idx = ix, cols = [(na, replicate k NaN @ u), (nb, replicate k NaN @ v)]\<rparr>
       = \<lparr>idx = drop k ix, cols = [(na, u), (nb, v)]\<rparr>"
  using assms by (subst dropna_all_from[where k = k]) (auto simp: nth_append)

lemma compounded_zeros:
  "t < n \<Longrightarrow> compounded (replicate n (Fin 0)) W t = (if W \<le> t + 1 then Fin 0 else NaN)"
  by (simp add: compounded_def)

text \<open>
  C6, amended. The window sizes are the module constants \<open>ROLL_RET_WIN = 63\<close> and
  \<open>ROLL_RISK_WIN = 126\<close>: \<open>compute_pairwise_metrics\<close> takes no window size. On
  every frame of returns that holds the three columns, and with every rolling library that
  keeps the warm-up, the excess table holds the differences of the period returns compounded
  over 63 returns, the correlation table the correlations of the library for the window 126,
  and the beta table its covariances over its variances for the window 126, each table
  without the rows whose cells are all missing; so the excess table has no date before the
  63rd row, and the other two none before the 126th.
\<close>

theorem compute_pairwise_metrics_fixed_windows:
  assumes wf: "wf_frame r"
    and g: "getitem r asset = Inr s_asset" "getitem r bench_a = Inr s_a"
           "getitem r bench_b = Inr s_b"
    and ne: "bench_a \<noteq> bench_b" and lib: "warm_up lib"
    and E: "excess_df = dropna_all \<lparr>idx = idx r, cols =
              [(asset @ ''-vs-'' @ bench_a,
                map (\<lambda>t. fsub (compounded s_asset 63 t) (compounded s_a 63 t)) [0..<length (idx r)]),
               (asset @ ''-vs-'' @ bench_b,
                map (\<lambda>t. fsub (compounded s_asset 63 t) (compounded s_b 63 t)) [0..<length (idx r)])]\<rparr>"
    and C: "corr_df = dropna_all \<lparr>idx = idx r, cols =
              [(''Corr('' @ asset @ '','' @ bench_a @ '')'', rolling_corr lib s_asset s_a 126),
               (''Corr('' @ asset @ '','' @ bench_b @ '')'', rolling_corr lib s_asset s_b 126)]\<rparr>"
    and B: "beta_df = dropna_all \<lparr>idx = idx r, cols =
              [(''Beta('' @ asset @ '','' @ bench_a @ '')'',
                series_op fdiv (rolling_cov lib s_asset s_a 126) (rolling_var lib s_a 126)),
               (''Beta('' @ asset @ '','' @ bench_b @ '')'',
                series_op fdiv (rolling_cov lib s_asset s_b 126) (rolling_var lib s_b 126))]\<rparr>"
  shows "compute_pairwise_metrics lib r asset bench_a bench_b = Inr (excess_df, corr_df, beta_df)
    \<and> (\<exists>rows. (\<forall>t\<in>set rows. 63 \<le> t + 1 \<and> t < length (idx r))
          \<and> idx excess_df = map (\<lambda>t. idx r ! t) rows)
    \<and> (\<exists>rows. (\<forall>t\<in>set rows. 126 \<le> t + 1 \<and> t < length (idx r))
          \<and> idx corr_df = map (\<lambda>t. idx r ! t) rows)
    \<and> (\<exists>rows. (\<forall>t\<in>set rows. 126 \<le> t + 1 \<and> t < length (idx r))
          \<and> idx beta_df = map (\<lambda>t. idx r ! t) rows)
    \<and> ROLL_RET_WIN = 63 \<and> ROLL_RISK_WIN = 126"
proof -
  let ?n = "length (idx r)"
  have len: "length s_asset = ?n" "length s_a = ?n" "length s_b = ?n"
    using wf g by (auto dest: getitem_length)
  have names: "asset @ ''-vs-'' @ bench_a \<noteq> asset @ ''-vs-'' @ bench_b"
    "''Corr('' @ asset @ '','' @ bench_a @ '')'' \<noteq> ''Corr('' @ asset @ '','' @ bench_b @ '')''"
    "''Beta('' @ asset @ '','' @ bench_a @ '')'' \<noteq> ''Beta('' @ asset @ '','' @ bench_b @ '')''"
    using ne by simp_all
  have ex: "series_op fsub (rolling_period_return s_asset 63) (rolling_period_return s_a 63)
       = map (\<lambda>t. fsub (compounded s_asset 63 t) (compounded s_a 63 t)) [0..<?n]"
    "series_op fsub (rolling_period_return s_asset 63) (rolling_period_return s_b 63)
       = map (\<lambda>t. fsub (compounded s_asset 63 t) (compounded s_b 63 t)) [0..<?n]"
    using len by (simp_all add: excess_column)
  have 1: "compute_pairwise_metrics lib r asset bench_a bench_b = Inr (excess_df, corr_df, beta_df)"
    unfolding compute_pairwise_metrics_def g sum.case Let_def ROLL_RET_WIN_def ROLL_RISK_WIN_def
      rolling_beta_def dict_two[OF names(1)] dict_two[OF names(2)] dict_two[OF names(3)]
      ex E C B ..
  have 3: "\<exists>rows. (\<forall>t\<in>set rows. 63 \<le> t + 1 \<and> t < ?n) \<and> idx excess_df = map (\<lambda>t. idx r ! t) rows"
    unfolding E by (rule dropna_all_two_rows) (simp_all add: compounded_warm_up)
  have w: "length (rolling_corr lib a b 126) = length a"
      "length (rolling_cov lib a b 126) = length a"
      "t + 1 < 126 \<Longrightarrow> t < length a \<Longrightarrow> isna (rolling_corr lib a b 126 ! t)"
      "t + 1 < 126 \<Longrightarrow> t < length a \<Longrightarrow> isna (rolling_cov lib a b 126 ! t)"
    if "length b = length a" for a b t
    using lib that unfolding warm_up_def by metis+
  have lv: "length (rolling_var lib a 126) = length a" for a
    using lib unfolding warm_up_def by metis
  have 4: "\<exists>rows. (\<forall>t\<in>set rows. 126 \<le> t + 1 \<and> t < ?n) \<and> idx corr_df = map (\<lambda>t. idx r ! t) rows"
    unfolding C using len by (intro dropna_all_two_rows) (simp_all add: w)
  have nb: "isna (series_op fdiv (rolling_cov lib a b 126) (rolling_var lib b 126) ! t)"
    if "length b = length a" "t + 1 < 126" "t < length a" for a b t
  proof -
    have "rolling_cov lib a b 126 ! t = NaN" using w(4)[OF that] by (cases "rolling_cov lib a b 126 ! t") auto
    then show ?thesis using that by (simp add: series_op_nth w lv)
  qed
  have 5: "\<exists>rows. (\<forall>t\<in>set rows. 126 \<le> t + 1 \<and> t < ?n) \<and> idx beta_df = map (\<lambda>t. idx r ! t) rows"
    unfolding B using len by (intro dropna_all_two_rows) (simp_all add: w lv nb)
  have 6: "ROLL_RET_WIN = 63" "ROLL_RISK_WIN = 126"
    by (simp_all add: ROLL_RET_WIN_def ROLL_RISK_WIN_def)
  from 1 3 4 5 6 show ?thesis by blast
qed

theorem compute_pairwise_metrics_fixed_windows_witness:
  "compute_pairwise_metrics unit_lib
     \<lparr>idx = map int [0..<127],
        cols = [(''A'', replicate 127 (Fin 0)), (''B'', replicate 127 (Fin 0)),
                (''C'', replicate 127 (Fin 0))]\<rparr> ''A'' ''B'' ''C''
   = Inr (\<lparr>idx = map int [62..<127],
            cols = [(''A-vs-B'', replicate 65 (Fin 0)), (''A-vs-C'', replicate 65 (Fin 0))]\<rparr>,
          \<lparr>idx = [125, 126],
            cols = [(''Corr(A,B)'', [Fin 1, Fin 1]), (''Corr(A,C)'', [Fin 1, Fin 1])]\<rparr>,
          \<lparr>idx = [125, 126],
            cols = [(''Beta(A,B)'', [Fin 1, Fin 1]), (''Beta(A,C)'', [Fin 1, Fin 1])]\<rparr>)"
proof -
  let ?Z = "replicate 127 (Fin 0)"
  let ?r = "\<lparr>idx = map int [0..<127], cols = [(''A'', ?Z), (''B'', ?Z), (''C'', ?Z)]\<rparr>"
  let ?e = "map (\<lambda>t. fsub (compounded ?Z 63 t) (compounded ?Z 63 t)) [0..<length (idx ?r)]"
  let ?c = "rolling_corr unit_lib ?Z ?Z 126"
  let ?b = "series_op fdiv (rolling_cov unit_lib ?Z ?Z 126) (rolling_var unit_lib ?Z 126)"
  have wf: "wf_frame ?r" by (simp add: wf_frame_def)
  have g: "getitem ?r ''A'' = Inr ?Z" "getitem ?r ''B'' = Inr ?Z" "getitem ?r ''C'' = Inr ?Z"
    by (simp_all add: getitem_def)
  have ne: "''B'' \<noteq> ''C''" by simp
  have e: "?e = replicate 62 NaN @ replicate 65 (Fin 0)"
    by (intro nth_equalityI) (simp_all add: compounded_zeros nth_append fsub_def)
  have c: "?c = replicate 125 NaN @ replicate 2 (Fin 1)"
    by (intro nth_equalityI) (simp_all add: unit_lib_def nth_append)
  have b: "?b = replicate 125 NaN @ replicate 2 (Fin 1)"
    by (intro nth_equalityI) (simp_all add: unit_lib_def series_op_nth nth_append)
  have l: "length (idx ?r) = 62 + 65" "length (idx ?r) = 125 + 2" by simp_all
  have d: "drop 62 (idx ?r) = map int [62..<127]" "drop 125 (idx ?r) = [125, 126]"
    by (simp add: drop_map, code_simp)
  have two: "replicate 2 (Fin 1) = [Fin 1, Fin 1]" by (simp add: numeral_2_eq_2)
  have E: "dropna_all \<lparr>idx = idx ?r, cols = [(''A-vs-B'', ?e), (''A-vs-C'', ?e)]\<rparr>
         = \<lparr>idx = map int [62..<127],
             cols = [(''A-vs-B'', replicate 65 (Fin 0)), (''A-vs-C'', replicate 65 (Fin 0))]\<rparr>"
    unfolding e d(1)[symmetric] by (rule dropna_all_warm[OF l(1)]) simp_all
  have C: "dropna_all \<lparr>idx = idx ?r, cols = [(''Corr(A,B)'', ?c), (''Corr(A,C)'', ?c)]\<rparr>
         = \<lparr>idx = [125, 126],
             cols = [(''Corr(A,B)'', [Fin 1, Fin 1]), (''Corr(A,C)'', [Fin 1, Fin 1])]\<rparr>"
    unfolding c d(2)[symmetric] two[symmetric] by (rule dropna_all_warm[OF l(2)]) simp_all
  have B: "dropna_all \<lparr>idx = idx ?r, cols = [(''Beta(A,B)'', ?b), (''Beta(A,C)'', ?b)]\<rparr>
         = \<lparr>idx = [125, 126],
             cols = [(''Beta(A,B)'', [Fin 1, Fin 1]), (''Beta(A,C)'', [Fin 1, Fin 1])]\<rparr>"
    unfolding b d(2)[symmetric] two[symmetric] by (rule dropna_all_warm[OF l(2)]) simp_all
  have n: "''A'' @ ''-vs-'' @ ''B'' = ''A-vs-B''" "''A'' @ ''-vs-'' @ ''C'' = ''A-vs-C''"
    "''Corr('' @ ''A'' @ '','' @ ''B'' @ '')'' = ''Corr(A,B)''"
    "''Corr('' @ ''A'' @ '','' @ ''C'' @ '')'' = ''Corr(A,C)''"
    "''Beta('' @ ''A'' @ '','' @ ''B'' @ '')'' = ''Beta(A,B)''"
    "''Beta('' @ ''A'' @ '','' @ ''C'' @ '')'' = ''Beta(A,C)''"
    by simp_all
  from compute_pairwise_metrics_fixed_windows[OF wf g ne warm_up_unit_lib refl refl refl]
  show ?thesis unfolding n E C B by blast
qed

text \<open>On two rows of returns the caller's window sizes 1 and 2 would give an excess table
  with both dates; the code, with its window of 63, gives an empty one.\<close>

theorem compute_pairwise_metrics_fixed_windows_counterexample:
  "map_sum id (\<lambda>(excess_df, corr_df, beta_df). excess_df)
     (compute_pairwise_metrics unit_lib
        \<lparr>idx = [1, 2], cols = [(''A'', [Fin 1, Fin 2]), (''B'', [Fin 2, Fin 3]), (''C'', [Fin 3, Fin 1])]\<rparr>
        ''A'' ''B'' ''C'')
     = Inr \<lparr>idx = [], cols = [(''A-vs-B'', []), (''A-vs-C'', [])]\<rparr>
   \<and> map_sum id (\<lambda>(excess_df, corr_df, beta_df). excess_df)
     (metrics_with_windows 1 2 unit_lib
        \<lparr>idx = [1, 2], cols = [(''A'', [Fin 1, Fin 2]), (''B'', [Fin 2, Fin 3]), (''C'', [Fin 3, Fin 1])]\<rparr>
        ''A'' ''B'' ''C'')
     = Inr \<lparr>idx = [1, 2], cols = [(''A-vs-B'', [Fin (- 1), Fin (- 1)]), (''A-vs-C'', [Fin (- 2), Fin 1])]\<rparr>"
  by (simp add: compute_pairwise_metrics_def metrics_with_windows_def getitem_def Let_def
      dict_def dropna_all_def select_rows_def select_def row_all_na_def
      rolling_period_return_def rolling_def window_def roll_apply_def series_op_def fsub_def
      ROLL_RET_WIN_def eval_nat_numeral)

end
